theory Spec2Isabelle
  imports
    Complex_Main
    "HOL-Library.AList"
    "HOL-Library.Sublist"
    "HOL-Library.Char_ord"
    "HOL-Library.List_Lexorder"
    "HOL-Library.Product_Lexorder"
    "HOL-Library.Multiset"
begin

section \<open>Dynamically typed Go values\<close>

text \<open>
  Handlers, events, filters and action directives are all \<^verbatim>\<open>map[string]interface{}\<close> in
  the source. A value of type \<^verbatim>\<open>interface{}\<close> is modelled by \<open>gval\<close>, one constructor per
  dynamic type that the code distinguishes with a type assertion: \<^verbatim>\<open>int\<close> and \<^verbatim>\<open>int64\<close>
  are different dynamic types (\<^verbatim>\<open>.(int)\<close> fails on an \<^verbatim>\<open>int64\<close>), JSON numbers are
  \<^verbatim>\<open>float64\<close>. Integers are unbounded here (no counter of this program gets near
  \<open>2^63\<close>); a finite \<^verbatim>\<open>float64\<close> is the real number it denotes. A Go map is an association
  list with distinct keys, read with \<open>map_of\<close>; a Go string is a list of bytes.
\<close>

datatype gval =
    GNil
  | GBool bool
  | GInt int
  | GInt64 int
  | GFloat real
  | GStr string
  | GTime int
  | GList "gval list"
  | GMap "(string \<times> gval) list"

type_synonym gmap = "(string \<times> gval) list"

text \<open>Instants are nanoseconds since the Unix epoch; \<open>Unix\<close> is \<^verbatim>\<open>Time.Unix()\<close>.\<close>

type_synonym instant = int

definition Unix :: "instant \<Rightarrow> int" where
  "Unix t = t div 1000000000"

text \<open>Go's integer division truncates toward zero.\<close>

definition quot :: "int \<Rightarrow> int \<Rightarrow> int" where
  "quot a b = (if 0 \<le> a then a div b else - ((- a) div b))"

text \<open>Type assertions \<^verbatim>\<open>x, ok := m[k].(T)\<close>: \<open>None\<close> is \<^verbatim>\<open>ok == false\<close>.\<close>

fun asString :: "gval option \<Rightarrow> string option" where
  "asString (Some (GStr s)) = Some s"
| "asString _ = None"

fun asBool :: "gval option \<Rightarrow> bool option" where
  "asBool (Some (GBool b)) = Some b"
| "asBool _ = None"

fun asInt :: "gval option \<Rightarrow> int option" where
  "asInt (Some (GInt n)) = Some n"
| "asInt _ = None"

fun asInt64 :: "gval option \<Rightarrow> int option" where
  "asInt64 (Some (GInt64 n)) = Some n"
| "asInt64 _ = None"

fun asFloat64 :: "gval option \<Rightarrow> real option" where
  "asFloat64 (Some (GFloat r)) = Some r"
| "asFloat64 _ = None"

fun asList :: "gval option \<Rightarrow> gval list option" where
  "asList (Some (GList xs)) = Some xs"
| "asList _ = None"

fun asMap :: "gval option \<Rightarrow> gmap option" where
  "asMap (Some (GMap m)) = Some m"
| "asMap _ = None"

text \<open>\<^verbatim>\<open>x, _ := m[k].(T)\<close>: the zero value of \<^verbatim>\<open>T\<close> when the assertion fails.\<close>

definition stringOrZero :: "gval option \<Rightarrow> string" where
  "stringOrZero x = (case asString x of Some s \<Rightarrow> s | None \<Rightarrow> [])"

definition boolOrZero :: "gval option \<Rightarrow> bool" where
  "boolOrZero x = (case asBool x of Some b \<Rightarrow> b | None \<Rightarrow> False)"

definition intOrZero :: "gval option \<Rightarrow> int" where
  "intOrZero x = (case asInt x of Some n \<Rightarrow> n | None \<Rightarrow> 0)"

section \<open>Errors and SQL values\<close>

text \<open>
  Failures of the program are values. \<open>Panic\<close> is a failed unchecked type assertion
  (\<^verbatim>\<open>handler["handler_id"].(string)\<close>); the others are the errors of the store: a
  statement on a closed database, an argument of a type the SQL driver cannot bind (a
  slice or a map), a \<^verbatim>\<open>NOT NULL\<close> column given \<^verbatim>\<open>NULL\<close>, \<^verbatim>\<open>sql.ErrNoRows\<close>, and a
  column that does not convert to the Go variable it is scanned into.
\<close>

datatype error =
  Panic | DatabaseClosed | UnsupportedType | ConstraintFailed | NoRows | ScanError

text \<open>
  A cell of a table: SQLite's storage classes. \<open>CTime\<close> is the text that the driver writes
  for a \<^verbatim>\<open>time.Time\<close> argument.
\<close>

datatype cell = CNull | CInt int | CReal real | CText string | CTime instant

section \<open>External capabilities\<close>

text \<open>
  What the program calls outside its own source is a parameter of the model: the standard
  library's \<^verbatim>\<open>strings.ToLower\<close>, \<^verbatim>\<open>regexp.MatchString\<close> (\<open>None\<close> when the pattern does
  not compile), \<^verbatim>\<open>Time.Format(time.RFC3339)\<close>, \<^verbatim>\<open>time.Parse(time.RFC3339, _)\<close> and the
  JSON rendering of a \<^verbatim>\<open>time.Time\<close>; the messaging capability \<^verbatim>\<open>CallWhatsmeowMethod\<close>
  (the model keeps whether the result was non-nil and successful); the media download and
  the scripted-action runner, which talk to the file system and to the tool server; the
  text of an error (\<^verbatim>\<open>err.Error()\<close>); two conversions of SQLite's column affinity:
  the text that a non-text value becomes in a \<^verbatim>\<open>TEXT\<close> column, and the number that a text
  becomes in an \<^verbatim>\<open>INTEGER\<close> column when it spells one; and the rounding of a real number
  to the nearest \<^verbatim>\<open>float64\<close>, by which the floating-point operations of the source are
  written.
\<close>

record world =
  ToLower :: "string \<Rightarrow> string"
  MatchString :: "string \<Rightarrow> string \<Rightarrow> bool option"
  FormatRFC3339 :: "instant \<Rightarrow> string"
  ParseRFC3339 :: "string \<Rightarrow> instant option"
  MarshalTime :: "instant \<Rightarrow> string"
  CallWhatsmeowMethod :: "string \<Rightarrow> gmap \<Rightarrow> bool"
  downloadMedia :: "gmap \<Rightarrow> string option"
  RunPythonTool :: "string \<Rightarrow> gmap \<Rightarrow> string + gmap"
  ErrorString :: "error \<Rightarrow> string"
  RenderText :: "cell \<Rightarrow> string"
  NumericText :: "string \<Rightarrow> cell option"
  Float64 :: "real \<Rightarrow> real"

text \<open>
  \<^verbatim>\<open>time.Since(t)\<close> at the clock reading \<open>now\<close>: a \<^verbatim>\<open>Duration\<close> is a 64-bit count of
  nanoseconds, and the difference saturates at its least and greatest value.
  \<^verbatim>\<open>Duration.Seconds()\<close> adds the whole seconds and the fraction as \<^verbatim>\<open>float64\<close>s.
\<close>

definition Since :: "instant \<Rightarrow> instant \<Rightarrow> int" where
  "Since now t =
     (if now - t < - 9223372036854775808 then - 9223372036854775808
      else if 9223372036854775807 < now - t then 9223372036854775807
      else now - t)"

definition Seconds :: "world \<Rightarrow> int \<Rightarrow> real" where
  "Seconds w d =
     (let sec = quot d 1000000000;
          nsec = d - sec * 1000000000
      in Float64 w (of_int sec + Float64 w (of_int nsec / 1000000000)))"

text \<open>\<^verbatim>\<open>strings.Contains(s, substr)\<close>.\<close>

definition Contains :: "string \<Rightarrow> string \<Rightarrow> bool" where
  "Contains s substr = sublist substr s"

section \<open>Variable substitution (substituteValue, substituteVariables)\<close>

primrec substituteValue :: "gval \<Rightarrow> gmap \<Rightarrow> gval" where
  "substituteValue GNil eventData = GNil"
| "substituteValue (GBool b) eventData = GBool b"
| "substituteValue (GInt n) eventData = GInt n"
| "substituteValue (GInt64 n) eventData = GInt64 n"
| "substituteValue (GFloat r) eventData = GFloat r"
| "substituteValue (GTime t) eventData = GTime t"
| "substituteValue (GStr v) eventData =
     (if length v > 7 \<and> take 7 v = ''{event.'' \<and> drop (length v - 1) v = ''}''
      then (case map_of eventData (take (length v - 1 - 7) (drop 7 v)) of
              Some fieldValue \<Rightarrow> fieldValue
            | None \<Rightarrow> GStr v)
      else GStr v)"
| "substituteValue (GList vs) eventData =
     GList (map (\<lambda>val. substituteValue val eventData) vs)"
| "substituteValue (GMap m) eventData =
     GMap (map (map_prod id (\<lambda>val. substituteValue val eventData)) m)"

definition substituteVariables :: "gmap \<Rightarrow> gmap \<Rightarrow> gmap" where
  "substituteVariables action eventData =
     map (map_prod id (\<lambda>val. substituteValue val eventData)) action"

section \<open>Event-filter matching (containsString, matchesFilter)\<close>

fun containsString :: "gval list \<Rightarrow> string \<Rightarrow> bool" where
  "containsString [] str = False"
| "containsString (item # rest) str =
     (case asString (Some item) of
        Some itemStr \<Rightarrow> if itemStr = str then True else containsString rest str
      | None \<Rightarrow> containsString rest str)"

text \<open>The keyword loop of the \<^verbatim>\<open>text_contains\<close> clause, with its \<^verbatim>\<open>break\<close>.\<close>

fun keywordMatched :: "world \<Rightarrow> string \<Rightarrow> gval list \<Rightarrow> bool" where
  "keywordMatched w textContent [] = False"
| "keywordMatched w textContent (keyword # rest) =
     (case asString (Some keyword) of
        Some keywordStr \<Rightarrow>
          if Contains textContent (ToLower w keywordStr) then True
          else keywordMatched w textContent rest
      | None \<Rightarrow> keywordMatched w textContent rest)"

definition matchesFilter :: "world \<Rightarrow> gmap \<Rightarrow> gmap \<Rightarrow> bool" where
  "matchesFilter w handler event =
     (case asMap (map_of handler ''event_filter'') of
        None \<Rightarrow> False
      | Some eventFilter \<Rightarrow>
          if (case asList (map_of eventFilter ''event_types'') of
                Some eventTypes \<Rightarrow> length eventTypes > 0 \<and>
                  \<not> containsString eventTypes (stringOrZero (map_of event ''event_type''))
              | None \<Rightarrow> False) then False
          else if (case asBool (map_of eventFilter ''is_from_me'') of
                Some isFromMe \<Rightarrow> isFromMe \<noteq> boolOrZero (map_of event ''is_from_me'')
              | None \<Rightarrow> False) then False
          else if (case asList (map_of eventFilter ''message_types'') of
                Some messageTypes \<Rightarrow> length messageTypes > 0 \<and>
                  \<not> containsString messageTypes (stringOrZero (map_of event ''message_type''))
              | None \<Rightarrow> False) then False
          else if (case asList (map_of eventFilter ''from_jids'') of
                Some fromJIDs \<Rightarrow> length fromJIDs > 0 \<and>
                  \<not> containsString fromJIDs (stringOrZero (map_of event ''from''))
              | None \<Rightarrow> False) then False
          else if (case asList (map_of eventFilter ''chat_jids'') of
                Some chatJIDs \<Rightarrow> length chatJIDs > 0 \<and>
                  \<not> containsString chatJIDs (stringOrZero (map_of event ''chat''))
              | None \<Rightarrow> False) then False
          else if (case asBool (map_of eventFilter ''is_group'') of
                Some isGroup \<Rightarrow> isGroup \<noteq> boolOrZero (map_of event ''is_group'')
              | None \<Rightarrow> False) then False
          else if (case asList (map_of eventFilter ''group_jids'') of
                Some groupJIDs \<Rightarrow> length groupJIDs > 0 \<and>
                  (\<not> boolOrZero (map_of event ''is_group'') \<or>
                   \<not> containsString groupJIDs (stringOrZero (map_of event ''chat'')))
              | None \<Rightarrow> False) then False
          else if (case asBool (map_of eventFilter ''has_media'') of
                Some hasMedia \<Rightarrow>
                  hasMedia \<noteq> (case asString (map_of event ''media_type'') of
                                 Some mediaType \<Rightarrow> mediaType \<noteq> []
                               | None \<Rightarrow> False)
              | None \<Rightarrow> False) then False
          else if (case asBool (map_of eventFilter ''has_quoted_message'') of
                Some hasQuoted \<Rightarrow>
                  hasQuoted \<noteq> (case asString (map_of event ''quoted_message_id'') of
                                  Some quotedID \<Rightarrow> quotedID \<noteq> []
                                | None \<Rightarrow> False)
              | None \<Rightarrow> False) then False
          else if (case asList (map_of eventFilter ''text_contains'') of
                Some textContains \<Rightarrow> length textContains > 0 \<and>
                  \<not> keywordMatched w
                      (ToLower w (stringOrZero (map_of event ''text_content''))) textContains
              | None \<Rightarrow> False) then False
          else if (case asString (map_of eventFilter ''text_regex'') of
                Some textRegex \<Rightarrow> textRegex \<noteq> [] \<and>
                  (case MatchString w textRegex (stringOrZero (map_of event ''text_content'')) of
                     None \<Rightarrow> True
                   | Some matched \<Rightarrow> \<not> matched)
              | None \<Rightarrow> False) then False
          else True)"

section \<open>Rate limiting (checkRateLimits, RecordExecution, checkCooldown)\<close>

record RateLimiter =
  perMinuteCounts :: "(int \<times> int) list"
  perHourCounts :: "(int \<times> int) list"
  perSenderCounts :: "(string \<times> (int \<times> int) list) list"
  lastExecution :: "instant option"

text \<open>The limiter that both operations allocate for an unknown handler; its
  \<^verbatim>\<open>lastExecution\<close> is the zero time (\<open>None\<close>).\<close>

definition newRateLimiter :: RateLimiter where
  "newRateLimiter =
     \<lparr>perMinuteCounts = [], perHourCounts = [], perSenderCounts = [], lastExecution = None\<rparr>"

record EventMatcher =
  handlers :: "gmap list"
  rateLimits :: "(string \<times> RateLimiter) list"

definition NewEventMatcher :: EventMatcher where
  "NewEventMatcher = \<lparr>handlers = [], rateLimits = []\<rparr>"

text \<open>Reading \<^verbatim>\<open>m[k]\<close> of a \<^verbatim>\<open>map[int64]int\<close>: zero for a missing key.\<close>

definition counter :: "(int \<times> int) list \<Rightarrow> int \<Rightarrow> int" where
  "counter m k = (case map_of m k of Some n \<Rightarrow> n | None \<Rightarrow> 0)"

text \<open>Reading \<^verbatim>\<open>perSenderCounts[sender][hour]\<close>; a missing sender is a nil map.\<close>

definition senderCounter :: "RateLimiter \<Rightarrow> string \<Rightarrow> int \<Rightarrow> int" where
  "senderCounter limiter sender hour =
     (case map_of (perSenderCounts limiter) sender of
        Some counts \<Rightarrow> counter counts hour
      | None \<Rightarrow> 0)"

text \<open>The get-or-create block under \<^verbatim>\<open>limitsMutex\<close>, common to both operations. The
  limiter is a pointer: \<open>storeLimiter\<close> makes its mutations visible in the matcher.\<close>

definition limiterFor :: "string \<Rightarrow> EventMatcher \<Rightarrow> RateLimiter \<times> EventMatcher" where
  "limiterFor handlerID em =
     (case map_of (rateLimits em) handlerID of
        Some limiter \<Rightarrow> (limiter, em)
      | None \<Rightarrow>
          (newRateLimiter,
           em\<lparr>rateLimits := AList.update handlerID newRateLimiter (rateLimits em)\<rparr>))"

definition storeLimiter :: "string \<Rightarrow> RateLimiter \<Rightarrow> EventMatcher \<Rightarrow> EventMatcher" where
  "storeLimiter handlerID limiter em =
     em\<lparr>rateLimits := AList.update handlerID limiter (rateLimits em)\<rparr>"

text \<open>The part of \<^verbatim>\<open>checkRateLimits\<close> that runs under the limiter's mutex.\<close>

definition checkLimiter :: "gmap \<Rightarrow> gmap \<Rightarrow> instant \<Rightarrow> RateLimiter \<Rightarrow> bool \<times> RateLimiter" where
  "checkLimiter handler event now limiter =
     (let currentMinute = quot (Unix now) 60;
          currentHour = quot (Unix now) 3600
      in
        if (case asInt64 (map_of handler ''max_executions_per_minute'') of
              Some maxPerMin \<Rightarrow> maxPerMin > 0 \<and>
                counter (perMinuteCounts limiter) currentMinute \<ge> maxPerMin
            | None \<Rightarrow> False) then (False, limiter)
        else if (case asInt64 (map_of handler ''max_executions_per_hour'') of
              Some maxPerHour \<Rightarrow> maxPerHour > 0 \<and>
                counter (perHourCounts limiter) currentHour \<ge> maxPerHour
            | None \<Rightarrow> False) then (False, limiter)
        else
          (case asInt64 (map_of handler ''max_executions_per_sender_per_hour'') of
             Some maxPerSenderHour \<Rightarrow>
               if maxPerSenderHour > 0 then
                 (let fromJID = stringOrZero (map_of event ''from'') in
                  if fromJID \<noteq> [] then
                    (let limiter1 =
                           (if map_of (perSenderCounts limiter) fromJID = None
                            then limiter\<lparr>perSenderCounts :=
                                   AList.update fromJID [] (perSenderCounts limiter)\<rparr>
                            else limiter)
                     in if senderCounter limiter1 fromJID currentHour \<ge> maxPerSenderHour
                        then (False, limiter1)
                        else (True, limiter1))
                  else (True, limiter))
               else (True, limiter)
           | None \<Rightarrow> (True, limiter)))"

definition checkRateLimits ::
    "gmap \<Rightarrow> gmap \<Rightarrow> instant \<Rightarrow> EventMatcher \<Rightarrow> error + (bool \<times> EventMatcher)" where
  "checkRateLimits handler event now em =
     (case asString (map_of handler ''handler_id'') of
        None \<Rightarrow> Inl Panic
      | Some handlerID \<Rightarrow>
          (let (limiter, em1) = limiterFor handlerID em;
               (allowed, limiter1) = checkLimiter handler event now limiter
           in Inr (allowed, storeLimiter handlerID limiter1 em1)))"

text \<open>The clean-up loops of \<^verbatim>\<open>RecordExecution\<close>: buckets before \<open>oldest\<close> are deleted, then
  senders left without a bucket.\<close>

definition dropOld :: "int \<Rightarrow> (int \<times> int) list \<Rightarrow> (int \<times> int) list" where
  "dropOld oldest counts = filter (\<lambda>(bucket, n). \<not> bucket < oldest) counts"

definition dropOldSenders ::
    "int \<Rightarrow> (string \<times> (int \<times> int) list) list \<Rightarrow> (string \<times> (int \<times> int) list) list" where
  "dropOldSenders oldestHour senders =
     filter (\<lambda>(sender, counts). length counts \<noteq> 0)
       (map (\<lambda>(sender, counts). (sender, dropOld oldestHour counts)) senders)"

definition recordOnLimiter :: "gmap \<Rightarrow> instant \<Rightarrow> RateLimiter \<Rightarrow> RateLimiter" where
  "recordOnLimiter event now limiter =
     (let currentMinute = quot (Unix now) 60;
          currentHour = quot (Unix now) 3600;
          limiter1 = limiter
            \<lparr>perMinuteCounts := AList.update currentMinute
                (counter (perMinuteCounts limiter) currentMinute + 1) (perMinuteCounts limiter),
             perHourCounts := AList.update currentHour
                (counter (perHourCounts limiter) currentHour + 1) (perHourCounts limiter)\<rparr>;
          fromJID = stringOrZero (map_of event ''from'');
          limiter2 =
            (if fromJID \<noteq> [] then
               (let counts = (case map_of (perSenderCounts limiter1) fromJID of
                                Some c \<Rightarrow> c | None \<Rightarrow> [])
                in limiter1\<lparr>perSenderCounts := AList.update fromJID
                     (AList.update currentHour (counter counts currentHour + 1) counts)
                     (perSenderCounts limiter1)\<rparr>)
             else limiter1);
          limiter3 = limiter2\<lparr>lastExecution := Some now\<rparr>;
          oldestMinute = quot (Unix now - 7200) 60;
          oldestHour = quot (Unix now - 7200) 3600
      in limiter3
           \<lparr>perMinuteCounts := dropOld oldestMinute (perMinuteCounts limiter3),
            perHourCounts := dropOld oldestHour (perHourCounts limiter3),
            perSenderCounts := dropOldSenders oldestHour (perSenderCounts limiter3)\<rparr>)"

definition RecordExecution :: "string \<Rightarrow> gmap \<Rightarrow> instant \<Rightarrow> EventMatcher \<Rightarrow> EventMatcher" where
  "RecordExecution handlerID event now em =
     (let (limiter, em1) = limiterFor handlerID em
      in storeLimiter handlerID (recordOnLimiter event now limiter) em1)"

definition checkCooldown :: "world \<Rightarrow> gmap \<Rightarrow> instant \<Rightarrow> EventMatcher \<Rightarrow> error + bool" where
  "checkCooldown w handler now em =
     (case asInt64 (map_of handler ''cooldown_seconds'') of
        None \<Rightarrow> Inr True
      | Some cooldownSeconds \<Rightarrow>
          if cooldownSeconds \<le> 0 then Inr True
          else
            (case asString (map_of handler ''handler_id'') of
               None \<Rightarrow> Inl Panic
             | Some handlerID \<Rightarrow>
                 (case map_of (rateLimits em) handlerID of
                    None \<Rightarrow> Inr True
                  | Some limiter \<Rightarrow>
                      (case lastExecution limiter of
                         None \<Rightarrow> Inr True
                       | Some lastExec \<Rightarrow>
                           Inr (Seconds w (Since now lastExec)
                                  \<ge> Float64 w (of_int cooldownSeconds))))))"

text \<open>What a caller can observe of the counters of handler \<open>handlerID\<close>.\<close>

definition minuteCount :: "EventMatcher \<Rightarrow> string \<Rightarrow> int \<Rightarrow> int" where
  "minuteCount em handlerID minute =
     (case map_of (rateLimits em) handlerID of
        Some limiter \<Rightarrow> counter (perMinuteCounts limiter) minute
      | None \<Rightarrow> 0)"

definition hourCount :: "EventMatcher \<Rightarrow> string \<Rightarrow> int \<Rightarrow> int" where
  "hourCount em handlerID hour =
     (case map_of (rateLimits em) handlerID of
        Some limiter \<Rightarrow> counter (perHourCounts limiter) hour
      | None \<Rightarrow> 0)"

definition senderHourCount :: "EventMatcher \<Rightarrow> string \<Rightarrow> string \<Rightarrow> int \<Rightarrow> int" where
  "senderHourCount em handlerID sender hour =
     (case map_of (rateLimits em) handlerID of
        Some limiter \<Rightarrow> senderCounter limiter sender hour
      | None \<Rightarrow> 0)"

definition lastExecutionOf :: "EventMatcher \<Rightarrow> string \<Rightarrow> instant option" where
  "lastExecutionOf em handlerID =
     (case map_of (rateLimits em) handlerID of
        Some limiter \<Rightarrow> lastExecution limiter
      | None \<Rightarrow> None)"

section \<open>The handler store (SaveHandler, GetHandler, ListHandlers, UpdateHandlerStats)\<close>

text \<open>
  The store is an SQLite database reached through \<^verbatim>\<open>database/sql\<close>. The model keeps the two
  tables that the engine uses, as lists of rows in insertion order, and gives each
  statement of the source its SQL meaning. A handle that has been closed fails every
  statement.

  An argument of a statement is bound as follows: \<^verbatim>\<open>nil\<close> is \<^verbatim>\<open>NULL\<close>, a boolean is 0 or 1,
  an integer or a float is itself, a string is text; a slice or a map is refused by the
  driver, and the statement fails without touching the table.
\<close>

fun bind :: "gval option \<Rightarrow> cell option" where
  "bind None = Some CNull"
| "bind (Some GNil) = Some CNull"
| "bind (Some (GBool b)) = Some (CInt (if b then 1 else 0))"
| "bind (Some (GInt n)) = Some (CInt n)"
| "bind (Some (GInt64 n)) = Some (CInt n)"
| "bind (Some (GFloat r)) = Some (CReal r)"
| "bind (Some (GStr s)) = Some (CText s)"
| "bind (Some (GTime t)) = Some (CTime t)"
| "bind (Some (GList xs)) = None"
| "bind (Some (GMap m)) = None"

text \<open>
  Column affinity, applied when a row is written. An \<^verbatim>\<open>INTEGER\<close> column turns a real with
  an integral value strictly between the least and the greatest 64-bit integer into that
  integer, and keeps every other real as it is; it turns a text that spells a number into
  the number; a \<^verbatim>\<open>TEXT\<close> column turns a number into its text.
\<close>

definition realAffinity :: "real \<Rightarrow> cell" where
  "realAffinity r =
     (if r = of_int \<lfloor>r\<rfloor> \<and> - 9223372036854775808 < \<lfloor>r\<rfloor> \<and> \<lfloor>r\<rfloor> < 9223372036854775807
      then CInt \<lfloor>r\<rfloor> else CReal r)"

definition integerAffinity :: "world \<Rightarrow> cell \<Rightarrow> cell" where
  "integerAffinity w c =
     (case c of
        CReal r \<Rightarrow> realAffinity r
      | CText s \<Rightarrow>
          (case NumericText w s of
             Some (CReal r) \<Rightarrow> realAffinity r
           | Some (CInt n) \<Rightarrow> CInt n
           | _ \<Rightarrow> CText s)
      | _ \<Rightarrow> c)"

definition textAffinity :: "world \<Rightarrow> cell \<Rightarrow> cell" where
  "textAffinity w c =
     (case c of
        CInt n \<Rightarrow> CText (RenderText w c)
      | CReal r \<Rightarrow> CText (RenderText w c)
      | _ \<Rightarrow> c)"

text \<open>
  \<^verbatim>\<open>rows.Scan\<close> into a Go variable: \<open>None\<close> is a conversion error. In an \<^verbatim>\<open>INTEGER\<close> column
  only an integer cell converts to \<^verbatim>\<open>int\<close> (a text left in such a column does not spell a
  number); \<^verbatim>\<open>NULL\<close> converts to the \<^verbatim>\<open>sql.Null...\<close> types only.
\<close>

fun scanInt :: "cell \<Rightarrow> int option" where
  "scanInt (CInt n) = Some n"
| "scanInt _ = None"

fun scanNullInt64 :: "cell \<Rightarrow> int option option" where
  "scanNullInt64 CNull = Some None"
| "scanNullInt64 (CInt n) = Some (Some n)"
| "scanNullInt64 _ = None"

fun scanString :: "world \<Rightarrow> cell \<Rightarrow> string option" where
  "scanString w CNull = None"
| "scanString w (CText s) = Some s"
| "scanString w c = Some (RenderText w c)"

fun scanNullString :: "world \<Rightarrow> cell \<Rightarrow> string option" where
  "scanNullString w CNull = None"
| "scanNullString w (CText s) = Some s"
| "scanNullString w c = Some (RenderText w c)"

text \<open>
  \<^verbatim>\<open>json.Marshal\<close> followed by \<^verbatim>\<open>json.Unmarshal\<close> into \<^verbatim>\<open>interface{}\<close>: every number comes
  back as a \<^verbatim>\<open>float64\<close>, a time as its text. Reading a document into a
  \<^verbatim>\<open>map[string]interface{}\<close> variable gives the object, and the nil map (which reads as
  the empty map) for \<^verbatim>\<open>null\<close> and for every other document, whose error the source drops.
\<close>

primrec jsonRoundTrip :: "world \<Rightarrow> gval \<Rightarrow> gval" where
  "jsonRoundTrip w GNil = GNil"
| "jsonRoundTrip w (GBool b) = GBool b"
| "jsonRoundTrip w (GInt n) = GFloat (of_int n)"
| "jsonRoundTrip w (GInt64 n) = GFloat (of_int n)"
| "jsonRoundTrip w (GFloat r) = GFloat r"
| "jsonRoundTrip w (GStr s) = GStr s"
| "jsonRoundTrip w (GTime t) = GStr (MarshalTime w t)"
| "jsonRoundTrip w (GList xs) = GList (map (jsonRoundTrip w) xs)"
| "jsonRoundTrip w (GMap m) = GMap (map (map_prod id (jsonRoundTrip w)) m)"

definition storedJSON :: "world \<Rightarrow> gval option \<Rightarrow> gval" where
  "storedJSON w v = (case v of None \<Rightarrow> GNil | Some x \<Rightarrow> jsonRoundTrip w x)"

definition unmarshalObject :: "gval \<Rightarrow> gmap" where
  "unmarshalObject doc = (case doc of GMap m \<Rightarrow> m | _ \<Rightarrow> [])"

text \<open>
  \<^verbatim>\<open>int(t)\<close> of a \<^verbatim>\<open>float64\<close>: truncation toward zero. For a value outside the 64 bits of
  \<^verbatim>\<open>int\<close> the language leaves the result to the implementation; the conversion
  instruction of amd64 gives the least integer.
\<close>

definition truncateFloat :: "real \<Rightarrow> int" where
  "truncateFloat r =
     (let t = (if 0 \<le> r then \<lfloor>r\<rfloor> else \<lceil>r\<rceil>)
      in if - 9223372036854775808 \<le> t \<and> t \<le> 9223372036854775807 then t
         else - 9223372036854775808)"

text \<open>The table \<^verbatim>\<open>event_handlers\<close>. The two JSON columns hold the document as it reads back.\<close>

record HandlerRow =
  row_handler_id :: cell
  row_description :: cell
  row_event_filter :: gval
  row_action :: gval
  row_enabled :: int
  row_priority :: cell
  row_max_executions_per_minute :: cell
  row_max_executions_per_hour :: cell
  row_max_executions_per_sender_per_hour :: cell
  row_cooldown_seconds :: cell
  row_timeout_seconds :: cell
  row_circuit_breaker_enabled :: int
  row_circuit_breaker_threshold :: int
  row_circuit_breaker_reset_seconds :: int
  row_created_at :: instant
  row_updated_at :: instant
  row_execution_count :: int
  row_last_executed :: "instant option"
  row_last_error :: "string option"
  row_last_error_time :: "instant option"
  row_total_errors :: int
  row_circuit_breaker_state :: "string option"

text \<open>The table \<^verbatim>\<open>handler_executions\<close>.\<close>

record ExecutionRow =
  exec_handler_id :: cell
  exec_event_id :: cell
  exec_event_type :: cell
  exec_from_jid :: cell
  exec_started_at :: cell
  exec_completed_at :: cell
  exec_duration_ms :: cell
  exec_success :: int
  exec_error :: cell
  exec_actions_executed :: cell

record Database =
  db_closed :: bool
  event_handlers :: "HandlerRow list"
  handler_executions :: "ExecutionRow list"

definition emptyDatabase :: Database where
  "emptyDatabase = \<lparr>db_closed = False, event_handlers = [], handler_executions = []\<rparr>"

text \<open>\<^verbatim>\<open>CURRENT_TIMESTAMP\<close> has the precision of a second.\<close>

definition currentTimestamp :: "instant \<Rightarrow> instant" where
  "currentTimestamp now = Unix now * 1000000000"

text \<open>
  \<^verbatim>\<open>INSERT OR REPLACE\<close>: a row with the same primary key is deleted, then the new row is
  inserted. (\<^verbatim>\<open>NULL\<close> keys never conflict.)
\<close>

definition insertOrReplace :: "HandlerRow \<Rightarrow> HandlerRow list \<Rightarrow> HandlerRow list" where
  "insertOrReplace row table =
     filter (\<lambda>r. \<not> (row_handler_id row \<noteq> CNull \<and> row_handler_id r = row_handler_id row)) table
       @ [row]"

text \<open>
  \<open>SaveHandler\<close>. The statement names fifteen columns; the seven others of the new row
  (\<^verbatim>\<open>created_at\<close>, \<^verbatim>\<open>execution_count\<close>, \<^verbatim>\<open>last_executed\<close>, \<^verbatim>\<open>last_error\<close>,
  \<^verbatim>\<open>last_error_time\<close>, \<^verbatim>\<open>total_errors\<close>, \<^verbatim>\<open>circuit_breaker_state\<close>) take the defaults of the
  schema. \<open>savedRow\<close> is the row that the statement writes, given the eight arguments that
  are bound as they come from the handler.
\<close>

definition savedRow ::
    "world \<Rightarrow> instant \<Rightarrow> gmap \<Rightarrow> cell \<Rightarrow> cell \<Rightarrow> cell \<Rightarrow> cell \<Rightarrow> cell \<Rightarrow> cell \<Rightarrow> cell \<Rightarrow> cell
       \<Rightarrow> HandlerRow" where
  "savedRow w now handler handlerID description priority maxPerMin maxPerHour
       maxPerSenderHour cooldown timeout =
     (let filterJSON = storedJSON w (map_of handler ''event_filter'');
          actionJSON = storedJSON w (map_of handler ''action'');
          enabled = (case asBool (map_of handler ''enabled'') of
                       Some e \<Rightarrow> if \<not> e then 0 else 1
                     | None \<Rightarrow> 1);
          cbEnabled = (case map_of handler ''circuit_breaker_enabled'' of
                         Some (GBool cb) \<Rightarrow> if \<not> cb then 0 else 1
                       | Some (GInt cb) \<Rightarrow> cb
                       | Some (GFloat cb) \<Rightarrow> if cb = 0 then 0 else 1
                       | _ \<Rightarrow> 1);
          cbThreshold = (case map_of handler ''circuit_breaker_threshold'' of
                           Some (GInt t) \<Rightarrow> t
                         | Some (GInt64 t) \<Rightarrow> t
                         | Some (GFloat t) \<Rightarrow> truncateFloat t
                         | _ \<Rightarrow> 5);
          cbReset = (case map_of handler ''circuit_breaker_reset_seconds'' of
                       Some (GInt r) \<Rightarrow> r
                     | Some (GInt64 r) \<Rightarrow> r
                     | Some (GFloat r) \<Rightarrow> truncateFloat r
                     | _ \<Rightarrow> 300)
      in \<lparr>row_handler_id = textAffinity w handlerID,
          row_description = textAffinity w description,
          row_event_filter = filterJSON,
          row_action = actionJSON,
          row_enabled = enabled,
          row_priority = integerAffinity w priority,
          row_max_executions_per_minute = integerAffinity w maxPerMin,
          row_max_executions_per_hour = integerAffinity w maxPerHour,
          row_max_executions_per_sender_per_hour = integerAffinity w maxPerSenderHour,
          row_cooldown_seconds = integerAffinity w cooldown,
          row_timeout_seconds = integerAffinity w timeout,
          row_circuit_breaker_enabled = cbEnabled,
          row_circuit_breaker_threshold = cbThreshold,
          row_circuit_breaker_reset_seconds = cbReset,
          row_created_at = currentTimestamp now,
          row_updated_at = now,
          row_execution_count = 0,
          row_last_executed = None,
          row_last_error = None,
          row_last_error_time = None,
          row_total_errors = 0,
          row_circuit_breaker_state = Some ''closed''\<rparr>)"

definition SaveHandler :: "world \<Rightarrow> instant \<Rightarrow> gmap \<Rightarrow> Database \<Rightarrow> error + Database" where
  "SaveHandler w now handler db =
     (if db_closed db then Inl DatabaseClosed
      else
        (case (bind (map_of handler ''handler_id''),
               bind (map_of handler ''description''),
               bind (map_of handler ''priority''),
               bind (map_of handler ''max_executions_per_minute''),
               bind (map_of handler ''max_executions_per_hour''),
               bind (map_of handler ''max_executions_per_sender_per_hour''),
               bind (map_of handler ''cooldown_seconds''),
               bind (map_of handler ''timeout_seconds'')) of
           (Some handlerID, Some description, Some priority, Some maxPerMin,
            Some maxPerHour, Some maxPerSenderHour, Some cooldown, Some timeout) \<Rightarrow>
             Inr (db\<lparr>event_handlers :=
               insertOrReplace
                 (savedRow w now handler handlerID description priority maxPerMin maxPerHour
                    maxPerSenderHour cooldown timeout)
                 (event_handlers db)\<rparr>)
         | _ \<Rightarrow> Inl UnsupportedType))"

text \<open>Setting \<^verbatim>\<open>m[k] = v\<close> when \<open>v\<close> is present.\<close>

definition setIfValid :: "string \<Rightarrow> gval option \<Rightarrow> gmap \<Rightarrow> gmap" where
  "setIfValid k v m = (case v of Some x \<Rightarrow> AList.update k x m | None \<Rightarrow> m)"

text \<open>
  \<open>GetHandler\<close>: the first row with the key, scanned column by column. \<open>handlerOfRow\<close> is
  the map that the source builds from the scanned variables.
\<close>

definition handlerOfRow ::
    "world \<Rightarrow> string \<Rightarrow> HandlerRow \<Rightarrow> int \<Rightarrow> int option \<Rightarrow> int option \<Rightarrow> int option
       \<Rightarrow> int option \<Rightarrow> int option \<Rightarrow> gmap" where
  "handlerOfRow w handlerID row priority maxPerMin maxPerHour maxPerSenderHour cooldown timeout =
     (let cbEnabled = (row_circuit_breaker_enabled row = 1);
          h0 = [(''handler_id'', GStr handlerID),
                (''event_filter'', GMap (unmarshalObject (row_event_filter row))),
                (''action'', GMap (unmarshalObject (row_action row))),
                (''enabled'', GBool (row_enabled row = 1)),
                (''priority'', GInt priority),
                (''created_at'', GStr (FormatRFC3339 w (row_created_at row))),
                (''updated_at'', GStr (FormatRFC3339 w (row_updated_at row))),
                (''execution_count'', GInt (row_execution_count row)),
                (''total_errors'', GInt (row_total_errors row)),
                (''circuit_breaker_state'', GStr ''closed'')];
          h1 = setIfValid ''description''
                 (map_option GStr (scanNullString w (row_description row))) h0;
          h2 = setIfValid ''max_executions_per_minute'' (map_option GInt64 maxPerMin) h1;
          h3 = setIfValid ''max_executions_per_hour'' (map_option GInt64 maxPerHour) h2;
          h4 = setIfValid ''max_executions_per_sender_per_hour''
                 (map_option GInt64 maxPerSenderHour) h3;
          h5 = setIfValid ''cooldown_seconds'' (map_option GInt64 cooldown) h4;
          h6 = setIfValid ''timeout_seconds'' (map_option GInt64 timeout) h5;
          h7 = setIfValid ''circuit_breaker_enabled''
                 (if cbEnabled then Some (GBool True) else None) h6;
          h8 = setIfValid ''circuit_breaker_threshold''
                 (if cbEnabled then Some (GInt64 (row_circuit_breaker_threshold row))
                  else None) h7;
          h9 = setIfValid ''circuit_breaker_reset_seconds''
                 (if cbEnabled then Some (GInt64 (row_circuit_breaker_reset_seconds row))
                  else None) h8;
          h10 = setIfValid ''last_executed''
                  (map_option (\<lambda>t. GStr (FormatRFC3339 w t)) (row_last_executed row)) h9;
          h11 = setIfValid ''last_error'' (map_option GStr (row_last_error row)) h10;
          h12 = setIfValid ''last_error_time''
                  (map_option (\<lambda>t. GStr (FormatRFC3339 w t)) (row_last_error_time row)) h11
      in setIfValid ''circuit_breaker_state''
           (map_option GStr (row_circuit_breaker_state row)) h12)"

definition GetHandler :: "world \<Rightarrow> string \<Rightarrow> Database \<Rightarrow> error + gmap" where
  "GetHandler w handlerID db =
     (if db_closed db then Inl DatabaseClosed
      else
        (case filter (\<lambda>r. row_handler_id r = CText handlerID) (event_handlers db) of
           [] \<Rightarrow> Inl NoRows
         | row # _ \<Rightarrow>
             (case (scanInt (row_priority row),
                    scanNullInt64 (row_max_executions_per_minute row),
                    scanNullInt64 (row_max_executions_per_hour row),
                    scanNullInt64 (row_max_executions_per_sender_per_hour row),
                    scanNullInt64 (row_cooldown_seconds row),
                    scanNullInt64 (row_timeout_seconds row)) of
                (Some priority, Some maxPerMin, Some maxPerHour, Some maxPerSenderHour,
                 Some cooldown, Some timeout) \<Rightarrow>
                  Inr (handlerOfRow w handlerID row priority maxPerMin maxPerHour
                         maxPerSenderHour cooldown timeout)
              | _ \<Rightarrow> Inl ScanError)))"

text \<open>
  \<open>ListHandlers\<close>: \<^verbatim>\<open>ORDER BY priority DESC, handler_id\<close>. Every selected row is scanned and
  the first failure ends the call, so the rows are scanned first and the scanned rows are
  ordered: by priority descending, then by handler id in byte order.
\<close>

definition scanSummary :: "world \<Rightarrow> HandlerRow \<Rightarrow> gmap option" where
  "scanSummary w row =
     (case (scanString w (row_handler_id row), scanInt (row_priority row)) of
        (Some handlerID, Some priority) \<Rightarrow>
          Some
           (setIfValid ''circuit_breaker_state''
              (map_option GStr (row_circuit_breaker_state row))
           (setIfValid ''last_executed''
              (map_option (\<lambda>t. GStr (FormatRFC3339 w t)) (row_last_executed row))
           (setIfValid ''description''
              (map_option GStr (scanNullString w (row_description row)))
              [(''handler_id'', GStr handlerID),
               (''enabled'', GBool (row_enabled row = 1)),
               (''priority'', GInt priority),
               (''execution_count'', GInt (row_execution_count row))])))
      | _ \<Rightarrow> None)"

definition orderKey :: "gmap \<Rightarrow> int \<times> string" where
  "orderKey h = (- intOrZero (map_of h ''priority''), stringOrZero (map_of h ''handler_id''))"

definition ListHandlers :: "world \<Rightarrow> bool \<Rightarrow> Database \<Rightarrow> error + gmap list" where
  "ListHandlers w enabledOnly db =
     (if db_closed db then Inl DatabaseClosed
      else
        (let selected = (if enabledOnly
                         then filter (\<lambda>r. row_enabled r = 1) (event_handlers db)
                         else event_handlers db);
             scanned = map (scanSummary w) selected
         in if None \<in> set scanned then Inl ScanError
            else Inr (sort_key orderKey (map the scanned))))"

text \<open>\<open>UpdateHandlerStats\<close>: an \<^verbatim>\<open>UPDATE\<close> of the rows with the key; the other columns stay.\<close>

definition UpdateHandlerStats ::
    "instant \<Rightarrow> string \<Rightarrow> bool \<Rightarrow> string \<Rightarrow> Database \<Rightarrow> error + Database" where
  "UpdateHandlerStats now handlerID success errorMsg db =
     (if db_closed db then Inl DatabaseClosed
      else if success then
        Inr (db\<lparr>event_handlers :=
          map (\<lambda>r. if row_handler_id r = CText handlerID
                    then r\<lparr>row_execution_count := row_execution_count r + 1,
                           row_last_executed := Some now,
                           row_updated_at := now\<rparr>
                    else r) (event_handlers db)\<rparr>)
      else
        Inr (db\<lparr>event_handlers :=
          map (\<lambda>r. if row_handler_id r = CText handlerID
                    then r\<lparr>row_execution_count := row_execution_count r + 1,
                           row_total_errors := row_total_errors r + 1,
                           row_last_executed := Some now,
                           row_last_error := Some errorMsg,
                           row_last_error_time := Some now,
                           row_updated_at := now\<rparr>
                    else r) (event_handlers db)\<rparr>))"

text \<open>
  \<open>LogHandlerExecution\<close>: an \<^verbatim>\<open>INSERT\<close> into \<^verbatim>\<open>handler_executions\<close>, whose first three
  columns are \<^verbatim>\<open>NOT NULL\<close>.
\<close>

definition LogHandlerExecution :: "gmap \<Rightarrow> Database \<Rightarrow> error + Database" where
  "LogHandlerExecution execution db =
     (let success = (case asBool (map_of execution ''success'') of
                       Some s \<Rightarrow> if s then 1 else 0
                     | None \<Rightarrow> 0)
      in
        if db_closed db then Inl DatabaseClosed
        else
          (case (bind (map_of execution ''handler_id''),
                 bind (map_of execution ''event_id''),
                 bind (map_of execution ''event_type''),
                 bind (map_of execution ''from_jid''),
                 bind (map_of execution ''started_at''),
                 bind (map_of execution ''completed_at''),
                 bind (map_of execution ''duration_ms''),
                 bind (map_of execution ''error''),
                 bind (map_of execution ''actions_executed'')) of
             (Some handlerID, Some eventID, Some eventType, Some fromJID, Some startedAt,
              Some completedAt, Some durationMs, Some err, Some actionsExecuted) \<Rightarrow>
               if handlerID = CNull \<or> eventID = CNull \<or> eventType = CNull
               then Inl ConstraintFailed
               else
                 Inr (db\<lparr>handler_executions := handler_executions db @
                   [\<lparr>exec_handler_id = handlerID,
                     exec_event_id = eventID,
                     exec_event_type = eventType,
                     exec_from_jid = fromJID,
                     exec_started_at = startedAt,
                     exec_completed_at = completedAt,
                     exec_duration_ms = durationMs,
                     exec_success = success,
                     exec_error = err,
                     exec_actions_executed = actionsExecuted\<rparr>]\<rparr>)
           | _ \<Rightarrow> Inl UnsupportedType))"

section \<open>Circuit breaker (isCircuitBreakerOpen, UpdateCircuitBreaker)\<close>

definition isCircuitBreakerOpen :: "world \<Rightarrow> instant \<Rightarrow> gmap \<Rightarrow> bool" where
  "isCircuitBreakerOpen w now handler =
     (case asBool (map_of handler ''circuit_breaker_enabled'') of
        None \<Rightarrow> False
      | Some cbEnabled \<Rightarrow>
          if \<not> cbEnabled then False
          else if stringOrZero (map_of handler ''circuit_breaker_state'') \<noteq> ''open'' then False
          else
            (case asString (map_of handler ''last_error_time'') of
               None \<Rightarrow> False
             | Some lastErrorTime \<Rightarrow>
                 (case ParseRFC3339 w lastErrorTime of
                    None \<Rightarrow> False
                  | Some lastError \<Rightarrow>
                      (let resetSeconds =
                             (case asInt64 (map_of handler ''circuit_breaker_reset_seconds'') of
                                Some r \<Rightarrow> r
                              | None \<Rightarrow> 300)
                       in if Seconds w (Since now lastError) \<ge> Float64 w (of_int resetSeconds)
                          then False
                          else True))))"

definition UpdateCircuitBreaker ::
    "world \<Rightarrow> instant \<Rightarrow> string \<Rightarrow> bool \<Rightarrow> Database \<Rightarrow> error + Database" where
  "UpdateCircuitBreaker w now handlerID success db =
     (case GetHandler w handlerID db of
        Inl err \<Rightarrow> Inl err
      | Inr handler \<Rightarrow>
          (case asBool (map_of handler ''circuit_breaker_enabled'') of
             None \<Rightarrow> Inr db
           | Some cbEnabled \<Rightarrow>
               if \<not> cbEnabled then Inr db
               else if success then
                 SaveHandler w now
                   (AList.update ''circuit_breaker_state'' (GStr ''closed'') handler) db
               else
                 (let totalErrors = intOrZero (map_of handler ''total_errors'');
                      threshold =
                        (case asInt64 (map_of handler ''circuit_breaker_threshold'') of
                           Some t \<Rightarrow> t
                         | None \<Rightarrow> 5)
                  in if totalErrors \<ge> threshold then
                       SaveHandler w now
                         (AList.update ''circuit_breaker_state'' (GStr ''open'') handler) db
                     else Inr db)))"

section \<open>Matching (sortHandlersByPriority, LoadHandlers, MatchEvent)\<close>

text \<open>The bubble sort of the source, on indices; the inner loop runs \<open>j\<close> up to \<open>bound\<close>.\<close>

function sortInner :: "gmap list \<Rightarrow> nat \<Rightarrow> nat \<Rightarrow> gmap list" where
  "sortInner hs j bound =
     (if j < bound then
        (let priority1 = intOrZero (map_of (hs ! j) ''priority'');
             priority2 = intOrZero (map_of (hs ! (j + 1)) ''priority'')
         in sortInner
              (if priority1 < priority2 then hs[j := hs ! (j + 1), j + 1 := hs ! j] else hs)
              (j + 1) bound)
      else hs)"
  by pat_completeness auto
termination
  by (relation "measure (\<lambda>(hs, j, bound). bound - j)") auto

function sortOuter :: "gmap list \<Rightarrow> nat \<Rightarrow> nat \<Rightarrow> gmap list" where
  "sortOuter hs i n =
     (if i + 1 < n then sortOuter (sortInner hs 0 (n - i - 1)) (i + 1) n else hs)"
  by pat_completeness auto
termination
  by (relation "measure (\<lambda>(hs, i, n). n - i)") auto

definition sortHandlersByPriority :: "gmap list \<Rightarrow> gmap list" where
  "sortHandlersByPriority hs = sortOuter hs 0 (length hs)"

text \<open>The loop of \<open>LoadHandlers\<close> over the listed handlers; a handler that cannot be read is
  skipped.\<close>

fun loadFull :: "world \<Rightarrow> Database \<Rightarrow> gmap list \<Rightarrow> error + gmap list" where
  "loadFull w db [] = Inr []"
| "loadFull w db (h # rest) =
     (case asString (map_of h ''handler_id'') of
        None \<Rightarrow> Inl Panic
      | Some handlerID \<Rightarrow>
          (case loadFull w db rest of
             Inl err \<Rightarrow> Inl err
           | Inr fullHandlers \<Rightarrow>
               (case GetHandler w handlerID db of
                  Inl err \<Rightarrow> Inr fullHandlers
                | Inr fullHandler \<Rightarrow> Inr (fullHandler # fullHandlers))))"

definition LoadHandlers :: "world \<Rightarrow> Database \<Rightarrow> EventMatcher \<Rightarrow> error + EventMatcher" where
  "LoadHandlers w db em =
     (case ListHandlers w True db of
        Inl err \<Rightarrow> Inl err
      | Inr listed \<Rightarrow>
          (case loadFull w db listed of
             Inl err \<Rightarrow> Inl err
           | Inr fullHandlers \<Rightarrow> Inr (em\<lparr>handlers := fullHandlers\<rparr>)))"

text \<open>
  The loop of \<open>MatchEvent\<close>: the five checks in the order of the source. The matches are
  collected in the order of the snapshot; the rate-limit check may allocate a limiter.
\<close>

fun matchLoop ::
    "world \<Rightarrow> gmap \<Rightarrow> instant \<Rightarrow> gmap list \<Rightarrow> EventMatcher \<Rightarrow> error + (gmap list \<times> EventMatcher)"
  where
  "matchLoop w event now [] em = Inr ([], em)"
| "matchLoop w event now (handler # rest) em =
     (if asBool (map_of handler ''enabled'') \<noteq> Some True then matchLoop w event now rest em
      else if isCircuitBreakerOpen w now handler then matchLoop w event now rest em
      else
        (case checkRateLimits handler event now em of
           Inl err \<Rightarrow> Inl err
         | Inr (allowed, em1) \<Rightarrow>
             if \<not> allowed then matchLoop w event now rest em1
             else
               (case checkCooldown w handler now em1 of
                  Inl err \<Rightarrow> Inl err
                | Inr cooled \<Rightarrow>
                    if \<not> cooled then matchLoop w event now rest em1
                    else if matchesFilter w handler event then
                      (case matchLoop w event now rest em1 of
                         Inl err \<Rightarrow> Inl err
                       | Inr (matches, em2) \<Rightarrow> Inr (handler # matches, em2))
                    else matchLoop w event now rest em1)))"

definition MatchEvent ::
    "world \<Rightarrow> gmap \<Rightarrow> instant \<Rightarrow> EventMatcher \<Rightarrow> error + (gmap list \<times> EventMatcher)" where
  "MatchEvent w event now em =
     (case matchLoop w event now (handlers em) em of
        Inl err \<Rightarrow> Inl err
      | Inr (matches, em1) \<Rightarrow> Inr (sortHandlersByPriority matches, em1))"

section \<open>Action execution (executeHandler and the directive interpreters)\<close>

text \<open>
  The state that an execution unit works on: the store, the matcher with its limiters, and
  the calls made to the messaging capability so far, oldest first.
\<close>

record System =
  database :: Database
  matcher :: EventMatcher
  calls :: "(string \<times> gmap) list"

text \<open>A store call whose error the caller drops leaves the store as it was on failure.\<close>

definition orUnchanged :: "Database \<Rightarrow> error + Database \<Rightarrow> Database" where
  "orUnchanged db r = (case r of Inl err \<Rightarrow> db | Inr db1 \<Rightarrow> db1)"

text \<open>One call of \<^verbatim>\<open>CallWhatsmeowMethod\<close>, with \<^verbatim>\<open>result != nil && result.Success\<close>.\<close>

definition callMethod ::
    "world \<Rightarrow> string \<Rightarrow> gmap \<Rightarrow> (string \<times> gmap) list \<Rightarrow> bool \<times> (string \<times> gmap) list" where
  "callMethod w method params cs = (CallWhatsmeowMethod w method params, cs @ [(method, params)])"

definition executeSendMessage ::
    "world \<Rightarrow> gmap \<Rightarrow> (string \<times> gmap) list \<Rightarrow> bool \<times> (string \<times> gmap) list" where
  "executeSendMessage w act cs =
     (case asString (map_of act ''to'') of
        None \<Rightarrow> (False, cs)
      | Some to \<Rightarrow>
          (case asMap (map_of act ''message'') of
             None \<Rightarrow> (False, cs)
           | Some message \<Rightarrow>
               callMethod w ''SendMessage'' [(''to'', GStr to), (''message'', GMap message)] cs))"

definition executeSendReaction ::
    "world \<Rightarrow> gmap \<Rightarrow> (string \<times> gmap) list \<Rightarrow> bool \<times> (string \<times> gmap) list" where
  "executeSendReaction w act cs = (False, cs)"

definition executeMarkRead ::
    "world \<Rightarrow> gmap \<Rightarrow> (string \<times> gmap) list \<Rightarrow> bool \<times> (string \<times> gmap) list" where
  "executeMarkRead w act cs =
     (case asList (map_of act ''message_ids'') of
        None \<Rightarrow> (False, cs)
      | Some messageIDs \<Rightarrow>
          callMethod w ''MarkRead''
            [(''message_ids'', GList messageIDs),
             (''chat'', GStr (stringOrZero (map_of act ''chat''))),
             (''sender'', GStr (stringOrZero (map_of act ''sender'')))] cs)"

definition executeSendPresence ::
    "world \<Rightarrow> gmap \<Rightarrow> (string \<times> gmap) list \<Rightarrow> bool \<times> (string \<times> gmap) list" where
  "executeSendPresence w act cs =
     (case asString (map_of act ''state'') of
        None \<Rightarrow> (False, cs)
      | Some state \<Rightarrow> callMethod w ''SendPresence'' [(''state'', GStr state)] cs)"

definition executeSendChatPresence ::
    "world \<Rightarrow> gmap \<Rightarrow> (string \<times> gmap) list \<Rightarrow> bool \<times> (string \<times> gmap) list" where
  "executeSendChatPresence w act cs =
     (case asString (map_of act ''jid'') of
        None \<Rightarrow> (False, cs)
      | Some jid \<Rightarrow>
          (case asString (map_of act ''state'') of
             None \<Rightarrow> (False, cs)
           | Some state \<Rightarrow>
               callMethod w ''SendChatPresence''
                 (case asString (map_of act ''media'') of
                    Some media \<Rightarrow>
                      [(''jid'', GStr jid), (''state'', GStr state), (''media'', GStr media)]
                  | None \<Rightarrow> [(''jid'', GStr jid), (''state'', GStr state)]) cs))"

text \<open>The pause of \<^verbatim>\<open>executeDelay\<close> is not modelled: the clock of a unit stands still.\<close>

definition executeDelay ::
    "world \<Rightarrow> gmap \<Rightarrow> (string \<times> gmap) list \<Rightarrow> bool \<times> (string \<times> gmap) list" where
  "executeDelay w act cs =
     (case asFloat64 (map_of act ''seconds'') of
        None \<Rightarrow> (False, cs)
      | Some seconds \<Rightarrow> (True, cs))"

definition executeCallMethod ::
    "world \<Rightarrow> gmap \<Rightarrow> (string \<times> gmap) list \<Rightarrow> bool \<times> (string \<times> gmap) list" where
  "executeCallMethod w act cs =
     (case asString (map_of act ''method'') of
        None \<Rightarrow> (False, cs)
      | Some method \<Rightarrow>
          callMethod w method
            (case asMap (map_of act ''params'') of Some params \<Rightarrow> params | None \<Rightarrow> []) cs)"

fun executeReturnedActions ::
    "world \<Rightarrow> gval list \<Rightarrow> gmap \<Rightarrow> (string \<times> gmap) list \<Rightarrow> int \<times> (string \<times> gmap) list" where
  "executeReturnedActions w [] eventData cs = (0, cs)"
| "executeReturnedActions w (act # rest) eventData cs =
     (case asMap (Some act) of
        None \<Rightarrow> executeReturnedActions w rest eventData cs
      | Some actionMap0 \<Rightarrow>
          (let actionMap = substituteVariables actionMap0 eventData;
               actionType = stringOrZero (map_of actionMap ''type'');
               (ok, cs1) =
                 (if actionType = ''send_message'' then executeSendMessage w actionMap cs
                  else if actionType = ''send_reaction'' then executeSendReaction w actionMap cs
                  else if actionType = ''mark_read'' then executeMarkRead w actionMap cs
                  else if actionType = ''send_presence'' then executeSendPresence w actionMap cs
                  else if actionType = ''send_chat_presence''
                    then executeSendChatPresence w actionMap cs
                  else if actionType = ''delay'' then executeDelay w actionMap cs
                  else if actionType = ''call_method'' then executeCallMethod w actionMap cs
                  else (False, cs));
               (executed, cs2) = executeReturnedActions w rest eventData cs1
           in ((if ok then 1 else 0) + executed, cs2)))"

definition executeDirectActions ::
    "world \<Rightarrow> gmap \<Rightarrow> gmap \<Rightarrow> (string \<times> gmap) list
       \<Rightarrow> (string + gmap) \<times> (string \<times> gmap) list" where
  "executeDirectActions w act eventData cs =
     (case asList (map_of act ''actions'') of
        None \<Rightarrow> (Inl ''missing actions array'', cs)
      | Some actions \<Rightarrow>
          (let (executed, cs1) = executeReturnedActions w actions eventData cs
           in (Inr [(''success'', GBool True), (''actions_executed'', GInt executed)], cs1)))"

text \<open>
  \<open>executePythonAction\<close> checks that the action carries code; everything after that goes
  through the tool server and is the capability \<open>RunPythonTool\<close>. (The time-out it is given
  is not used by the source.)
\<close>

definition executePythonAction :: "world \<Rightarrow> gmap \<Rightarrow> gmap \<Rightarrow> int \<Rightarrow> string + gmap" where
  "executePythonAction w act eventData timeout =
     (case asString (map_of act ''code'') of
        None \<Rightarrow> Inl ''missing Python code''
      | Some code \<Rightarrow>
          if code = [] then Inl ''missing Python code''
          else RunPythonTool w code eventData)"

definition prepareEventData :: "world \<Rightarrow> gmap \<Rightarrow> gmap" where
  "prepareEventData w event =
     (case asString (map_of event ''media_type'') of
        None \<Rightarrow> event
      | Some mediaType \<Rightarrow>
          if mediaType \<noteq> [] then
            (case downloadMedia w event of
               Some mediaPath \<Rightarrow>
                 if mediaPath \<noteq> [] then
                   AList.update ''has_media'' (GBool True)
                     (AList.update ''media_path'' (GStr mediaPath) event)
                 else event
             | None \<Rightarrow> event)
          else event)"

text \<open>The two writers of execution records; the error of the store is dropped, as is
  the entry in the in-memory error log.\<close>

definition logExecutionSuccess ::
    "instant \<Rightarrow> string \<Rightarrow> gmap \<Rightarrow> instant \<Rightarrow> int \<Rightarrow> int \<Rightarrow> Database \<Rightarrow> Database" where
  "logExecutionSuccess now handlerID event startTime durationMs actionsExecuted db =
     orUnchanged db
       (LogHandlerExecution
          [(''handler_id'', GStr handlerID),
           (''event_id'', GStr (stringOrZero (map_of event ''message_id''))),
           (''event_type'', GStr (stringOrZero (map_of event ''event_type''))),
           (''from_jid'', GStr (stringOrZero (map_of event ''from''))),
           (''started_at'', GTime startTime),
           (''completed_at'', GTime now),
           (''duration_ms'', GInt64 durationMs),
           (''success'', GBool True),
           (''actions_executed'', GInt actionsExecuted)] db)"

definition logExecutionError ::
    "instant \<Rightarrow> string \<Rightarrow> gmap \<Rightarrow> instant \<Rightarrow> string \<Rightarrow> Database \<Rightarrow> Database" where
  "logExecutionError now handlerID event startTime errorMsg db =
     orUnchanged db
       (LogHandlerExecution
          [(''handler_id'', GStr handlerID),
           (''event_id'', GStr (stringOrZero (map_of event ''message_id''))),
           (''event_type'', GStr (stringOrZero (map_of event ''event_type''))),
           (''from_jid'', GStr (stringOrZero (map_of event ''from''))),
           (''started_at'', GTime startTime),
           (''completed_at'', GTime now),
           (''duration_ms'', GInt64 (quot (now - startTime) 1000000)),
           (''success'', GBool False),
           (''error'', GStr errorMsg)] db)"

text \<open>The failure path of \<open>executeHandler\<close>: log, then the breaker, then the statistics.\<close>

definition failExecution ::
    "world \<Rightarrow> instant \<Rightarrow> string \<Rightarrow> gmap \<Rightarrow> instant \<Rightarrow> string \<Rightarrow> Database \<Rightarrow> Database" where
  "failExecution w now handlerID event startTime errorMsg db =
     (let db1 = logExecutionError now handlerID event startTime errorMsg db;
          db2 = orUnchanged db1 (UpdateCircuitBreaker w now handlerID False db1)
      in orUnchanged db2 (UpdateHandlerStats now handlerID False errorMsg db2))"

text \<open>
  \<open>executeHandler\<close>. Every clock reading of one unit returns \<open>now\<close>: the time that a unit
  takes is not modelled.
\<close>

definition executeHandler :: "world \<Rightarrow> instant \<Rightarrow> gmap \<Rightarrow> gmap \<Rightarrow> System \<Rightarrow> error + System" where
  "executeHandler w now handler event sys =
     (case asString (map_of handler ''handler_id'') of
        None \<Rightarrow> Inl Panic
      | Some handlerID \<Rightarrow>
          (let startTime = now;
               sys1 = sys\<lparr>matcher := RecordExecution handlerID event now (matcher sys)\<rparr>;
               timeout = (case asInt64 (map_of handler ''timeout_seconds'') of
                            Some t \<Rightarrow> if t > 0 then t else 30
                          | None \<Rightarrow> 30);
               eventData = prepareEventData w event
           in
             (case asMap (map_of handler ''action'') of
                None \<Rightarrow>
                  Inr (sys1\<lparr>database :=
                    logExecutionError now handlerID event startTime
                      ''Invalid action definition'' (database sys1)\<rparr>)
              | Some act \<Rightarrow>
                  (let actionType = stringOrZero (map_of act ''type'');
                       (outcome, cs1) =
                         (if actionType = ''python''
                            then (executePythonAction w act eventData timeout, calls sys1)
                          else if actionType = ''actions''
                            then executeDirectActions w act eventData (calls sys1)
                          else (Inl (''unknown action type: '' @ actionType), calls sys1))
                   in
                     (case outcome of
                        Inl err \<Rightarrow>
                          Inr (sys1\<lparr>calls := cs1,
                                    database := failExecution w now handlerID event startTime
                                                  err (database sys1)\<rparr>)
                      | Inr result \<Rightarrow>
                          if \<not> boolOrZero (map_of result ''success'') then
                            Inr (sys1\<lparr>calls := cs1,
                                      database := failExecution w now handlerID event startTime
                                        (stringOrZero (map_of result ''error''))
                                        (database sys1)\<rparr>)
                          else
                            (let (actionsExecuted, cs2) =
                                   (case asList (map_of result ''actions'') of
                                      Some actions \<Rightarrow>
                                        executeReturnedActions w actions eventData cs1
                                    | None \<Rightarrow> (0, cs1));
                                 durationMs = quot (now - startTime) 1000000;
                                 db1 = logExecutionSuccess now handlerID event startTime
                                         durationMs actionsExecuted (database sys1);
                                 db2 = orUnchanged db1
                                         (UpdateCircuitBreaker w now handlerID True db1);
                                 db3 = orUnchanged db2
                                         (UpdateHandlerStats now handlerID True [] db2)
                             in Inr (sys1\<lparr>calls := cs2, database := db3\<rparr>)))))))"

text \<open>
  \<open>ExecuteHandlersForEvent\<close> starts one goroutine per matched handler. The model runs the
  units one after the other, in the order of the match; it says nothing about their
  interleavings.
\<close>

fun executeAll :: "world \<Rightarrow> instant \<Rightarrow> gmap list \<Rightarrow> gmap \<Rightarrow> System \<Rightarrow> error + System" where
  "executeAll w now [] event sys = Inr sys"
| "executeAll w now (handler # rest) event sys =
     (case executeHandler w now handler event sys of
        Inl err \<Rightarrow> Inl err
      | Inr sys1 \<Rightarrow> executeAll w now rest event sys1)"

definition ExecuteHandlersForEvent :: "world \<Rightarrow> instant \<Rightarrow> gmap \<Rightarrow> System \<Rightarrow> error + System" where
  "ExecuteHandlersForEvent w now event sys =
     (case MatchEvent w event now (matcher sys) of
        Inl err \<Rightarrow> Inl err
      | Inr (matchingHandlers, em1) \<Rightarrow>
          executeAll w now matchingHandlers event (sys\<lparr>matcher := em1\<rparr>))"

section \<open>Registration (handleRegisterHandler)\<close>

record OperationResult =
  Success :: bool
  Message :: string
  Data :: "gmap option"
  Error :: string

definition failed :: "string \<Rightarrow> OperationResult" where
  "failed msg = \<lparr>Success = False, Message = [], Data = None, Error = msg\<rparr>"

text \<open>\<^verbatim>\<open>if _, ok := m[k]; !ok { m[k] = v }\<close>, and the three defaults that
  \<open>handleRegisterHandler\<close> writes into the request this way.\<close>

definition setDefault :: "string \<Rightarrow> gval \<Rightarrow> gmap \<Rightarrow> gmap" where
  "setDefault k v m = (if map_of m k = None then AList.update k v m else m)"

definition registrationDefaults :: "gmap \<Rightarrow> gmap" where
  "registrationDefaults data =
     setDefault ''timeout_seconds'' (GInt 30)
       (setDefault ''priority'' (GInt 0)
         (setDefault ''enabled'' (GBool True) data))"

text \<open>\<open>None\<close> for the input is \<^verbatim>\<open>input.Data == nil\<close>.\<close>

definition handleRegisterHandler ::
    "world \<Rightarrow> instant \<Rightarrow> gmap option \<Rightarrow> Database \<Rightarrow> OperationResult \<times> Database" where
  "handleRegisterHandler w now inputData db =
     (case inputData of
        None \<Rightarrow> (failed ''Missing handler data'', db)
      | Some data \<Rightarrow>
          (case asString (map_of data ''handler_id'') of
             None \<Rightarrow> (failed ''Missing or invalid handler_id'', db)
           | Some handlerID \<Rightarrow>
               if handlerID = [] then (failed ''Missing or invalid handler_id'', db)
               else if map_of data ''event_filter'' = None
                 then (failed ''Missing event_filter'', db)
               else if map_of data ''action'' = None then (failed ''Missing action'', db)
               else
                 (case SaveHandler w now (registrationDefaults data) db of
                    Inl err \<Rightarrow>
                      (failed (''Failed to save handler: '' @ ErrorString w err), db)
                  | Inr db1 \<Rightarrow>
                      (\<lparr>Success = True,
                        Message = ''Handler '' @ [CHR 0x27] @ handlerID @ [CHR 0x27]
                                    @ '' registered successfully'',
                        Data = Some [(''handler_id'', GStr handlerID)],
                        Error = []\<rparr>, db1))))"

text \<open>
  Auxiliary notions for the proofs about \<open>checkLimiter\<close>: whether a configured limit is
  enforced and reached, whether the per-sender limit applies to an event, and the
  allocation of an empty bucket map for a sender.
\<close>

definition touchSender :: "string \<Rightarrow> RateLimiter \<Rightarrow> RateLimiter" where
  "touchSender sender limiter =
     (if map_of (perSenderCounts limiter) sender = None
      then limiter\<lparr>perSenderCounts := AList.update sender [] (perSenderCounts limiter)\<rparr>
      else limiter)"

definition limitReached :: "gmap \<Rightarrow> string \<Rightarrow> int \<Rightarrow> bool" where
  "limitReached handler key n =
     (case asInt64 (map_of handler key) of Some mx \<Rightarrow> mx > 0 \<and> n \<ge> mx | None \<Rightarrow> False)"

definition senderEnforced :: "gmap \<Rightarrow> gmap \<Rightarrow> bool" where
  "senderEnforced handler event =
     ((case asInt64 (map_of handler ''max_executions_per_sender_per_hour'') of
         Some mx \<Rightarrow> mx > 0 | None \<Rightarrow> False) \<and> stringOrZero (map_of event ''from'') \<noteq> [])"

section \<open>Notions used in the statements\<close>

text \<open>The priority and the identity of a handler, as the sort and the limiter read them.\<close>

definition priorityOf :: "gmap \<Rightarrow> int" where
  "priorityOf h = intOrZero (map_of h ''priority'')"

definition idOf :: "gmap \<Rightarrow> string" where
  "idOf h = stringOrZero (map_of h ''handler_id'')"

text \<open>One step of the inner loop: a swap of two neighbours of different priority, or nothing.\<close>

definition sortStep :: "gmap list \<Rightarrow> nat \<Rightarrow> gmap list" where
  "sortStep hs j =
     (if priorityOf (hs ! j) < priorityOf (hs ! (j + 1))
      then hs[j := hs ! (j + 1), j + 1 := hs ! j] else hs)"

text \<open>The order of the specification: higher priority first, ties by handler id ascending.\<close>

definition precedes :: "gmap \<Rightarrow> gmap \<Rightarrow> bool" where
  "precedes a b \<longleftrightarrow>
     priorityOf b < priorityOf a \<or> (priorityOf a = priorityOf b \<and> idOf a < idOf b)"

text \<open>
  The primary key of \<^verbatim>\<open>event_handlers\<close>: the keys are texts, no two rows share one. Every
  write of the program keeps this: \<open>SaveHandler\<close> is always given a string \<^verbatim>\<open>handler_id\<close>.
\<close>

definition primaryKey :: "Database \<Rightarrow> bool" where
  "primaryKey db \<longleftrightarrow>
     list_all (\<lambda>r. case row_handler_id r of CText s \<Rightarrow> True | _ \<Rightarrow> False) (event_handlers db)
     \<and> distinct (map row_handler_id (event_handlers db))"

text \<open>A handler map that carries the key and the priority of a row of the store.\<close>

definition describesRow :: "Database \<Rightarrow> gmap \<Rightarrow> bool" where
  "describesRow db h \<longleftrightarrow>
     (\<exists>row \<in> set (event_handlers db). \<exists>s p.
        row_handler_id row = CText s \<and> scanInt (row_priority row) = Some p
        \<and> orderKey h = (- p, s) \<and> map_of h ''handler_id'' = Some (GStr s))"

text \<open>The scalar column values of a handler that the SQL driver can bind.\<close>

definition bindable :: "gmap \<Rightarrow> bool" where
  "bindable h \<longleftrightarrow>
     list_all (\<lambda>k. bind (map_of h k) \<noteq> None)
       [''handler_id'', ''description'', ''priority'', ''max_executions_per_minute'',
        ''max_executions_per_hour'', ''max_executions_per_sender_per_hour'',
        ''cooldown_seconds'', ''timeout_seconds'']"

text \<open>
  The validation of a registration request as the specification words it: the request is
  rejected when \<^verbatim>\<open>handler_id\<close> is absent, empty or not a string, or \<^verbatim>\<open>event_filter\<close> is
  absent, or \<^verbatim>\<open>action\<close> is absent.
\<close>

definition spec_registration_rejects :: "gmap option \<Rightarrow> bool" where
  "spec_registration_rejects inputData =
     (case inputData of
        None \<Rightarrow> True
      | Some data \<Rightarrow>
          (case map_of data ''handler_id'' of
             Some (GStr handlerID) \<Rightarrow> handlerID = []
           | _ \<Rightarrow> True)
          \<or> map_of data ''event_filter'' = None
          \<or> map_of data ''action'' = None)"

text \<open>
  What \<open>checkRateLimits\<close> and \<open>checkCooldown\<close> read of the limiter of handler
  \<open>handlerID\<close> for an event at the clock reading \<open>now\<close>: the count of the current
  minute, of the current hour, of the event's sender in the current hour, and the time of
  the last execution.
\<close>

definition limiterReadings ::
    "gmap \<Rightarrow> instant \<Rightarrow> EventMatcher \<Rightarrow> string \<Rightarrow> int \<times> int \<times> int \<times> instant option" where
  "limiterReadings event now em handlerID =
     (minuteCount em handlerID (quot (Unix now) 60),
      hourCount em handlerID (quot (Unix now) 3600),
      senderHourCount em handlerID (stringOrZero (map_of event ''from'')) (quot (Unix now) 3600),
      lastExecutionOf em handlerID)"

text \<open>The list that \<open>MatchEvent\<close> returns, without the matcher.\<close>

definition matchList :: "world \<Rightarrow> gmap \<Rightarrow> instant \<Rightarrow> EventMatcher \<Rightarrow> error + gmap list" where
  "matchList w event now em = map_sum id fst (MatchEvent w event now em)"

text \<open>The rows of the store that carry a given handler id.\<close>

definition rowsOf :: "Database \<Rightarrow> string \<Rightarrow> HandlerRow list" where
  "rowsOf db handlerID = filter (\<lambda>r. row_handler_id r = CText handlerID) (event_handlers db)"

subsection \<open>The clause semantics of the specification\<close>

text \<open>
  The filter semantics as the specification words it (section 4.2), for comparison with
  \<open>matchesFilter\<close>: a clause is present when the filter holds a value of the clause's type
  under the clause's name (a non-empty list, a boolean, a non-empty pattern); an absent
  clause is satisfied; the present clauses are conjoined.
\<close>

definition spec_member_clause :: "gmap \<Rightarrow> string \<Rightarrow> string \<Rightarrow> bool" where
  "spec_member_clause flt clause actual =
     (case asList (map_of flt clause) of
        None \<Rightarrow> True
      | Some allowed \<Rightarrow> allowed = [] \<or> GStr actual \<in> set allowed)"

definition spec_bool_clause :: "gmap \<Rightarrow> string \<Rightarrow> bool \<Rightarrow> bool" where
  "spec_bool_clause flt clause actual =
     (case asBool (map_of flt clause) of
        None \<Rightarrow> True
      | Some wanted \<Rightarrow> wanted = actual)"

definition spec_group_clause :: "gmap \<Rightarrow> gmap \<Rightarrow> bool" where
  "spec_group_clause flt event =
     (case asList (map_of flt ''group_jids'') of
        None \<Rightarrow> True
      | Some allowed \<Rightarrow> allowed = [] \<or>
          (boolOrZero (map_of event ''is_group'') \<and>
           GStr (stringOrZero (map_of event ''chat'')) \<in> set allowed))"

definition spec_nonempty_field :: "gmap \<Rightarrow> string \<Rightarrow> bool" where
  "spec_nonempty_field event field =
     (case asString (map_of event field) of None \<Rightarrow> False | Some s \<Rightarrow> s \<noteq> [])"

definition spec_text_contains_clause :: "world \<Rightarrow> gmap \<Rightarrow> gmap \<Rightarrow> bool" where
  "spec_text_contains_clause w flt event =
     (case asList (map_of flt ''text_contains'') of
        None \<Rightarrow> True
      | Some keywords \<Rightarrow> keywords = [] \<or>
          (\<exists>keyword \<in> set keywords.
             case keyword of
               GStr k \<Rightarrow> sublist (ToLower w k)
                          (ToLower w (stringOrZero (map_of event ''text_content'')))
             | _ \<Rightarrow> False))"

definition spec_text_regex_clause :: "world \<Rightarrow> gmap \<Rightarrow> gmap \<Rightarrow> bool" where
  "spec_text_regex_clause w flt event =
     (case asString (map_of flt ''text_regex'') of
        None \<Rightarrow> True
      | Some pattern \<Rightarrow> pattern = [] \<or>
          MatchString w pattern (stringOrZero (map_of event ''text_content'')) = Some True)"

definition spec_filter_matches :: "world \<Rightarrow> gmap \<Rightarrow> gmap \<Rightarrow> bool" where
  "spec_filter_matches w flt event =
     (spec_member_clause flt ''event_types'' (stringOrZero (map_of event ''event_type''))
      \<and> spec_bool_clause flt ''is_from_me'' (boolOrZero (map_of event ''is_from_me''))
      \<and> spec_member_clause flt ''message_types'' (stringOrZero (map_of event ''message_type''))
      \<and> spec_member_clause flt ''from_jids'' (stringOrZero (map_of event ''from''))
      \<and> spec_member_clause flt ''chat_jids'' (stringOrZero (map_of event ''chat''))
      \<and> spec_bool_clause flt ''is_group'' (boolOrZero (map_of event ''is_group''))
      \<and> spec_group_clause flt event
      \<and> spec_bool_clause flt ''has_media'' (spec_nonempty_field event ''media_type'')
      \<and> spec_bool_clause flt ''has_quoted_message''
            (spec_nonempty_field event ''quoted_message_id'')
      \<and> spec_text_contains_clause w flt event
      \<and> spec_text_regex_clause w flt event)"

section \<open>A concrete world for the worked examples\<close>

text \<open>
  ASCII lower-casing; a messaging client whose every call succeeds; no media to download;
  no connection to the tool server, so that the scripted-action runner returns its
  \<^verbatim>\<open>MCP connection not available\<close> error. The regular-expression engine, the rendering
  of timestamps, of errors and of cells, the numeric reading of text and the rounding to
  \<^verbatim>\<open>float64\<close> are trivial: the outcome of no example depends on them.
\<close>

definition asciiLower :: "char \<Rightarrow> char" where
  "asciiLower c =
     (if CHR ''A'' \<le> c \<and> c \<le> CHR ''Z'' then char_of (of_char c + (32::nat)) else c)"

definition plainWorld :: world where
  "plainWorld =
     \<lparr>ToLower = map asciiLower,
      MatchString = (\<lambda>pattern text. None),
      FormatRFC3339 = (\<lambda>t. []),
      ParseRFC3339 = (\<lambda>s. None),
      MarshalTime = (\<lambda>t. []),
      CallWhatsmeowMethod = (\<lambda>method params. True),
      downloadMedia = (\<lambda>event. None),
      RunPythonTool = (\<lambda>code eventData. Inl ''MCP connection not available''),
      ErrorString = (\<lambda>err. []),
      RenderText = (\<lambda>c. []),
      NumericText = (\<lambda>s. None),
      Float64 = (\<lambda>r. r)\<rparr>"

text \<open>The handler and the event of the specification's end-to-end scenario.\<close>

definition helloFilter :: gmap where
  "helloFilter =
     [(''event_types'', GList [GStr ''message'']),
      (''is_from_me'', GBool False),
      (''text_contains'', GList [GStr ''hello''])]"

definition helloAction :: gmap where
  "helloAction =
     [(''type'', GStr ''actions''),
      (''actions'', GList [GMap
         [(''type'', GStr ''send_message''),
          (''to'', GStr ''{event.from}''),
          (''message'', GMap [(''conversation'', GStr ''hi!'')])]])]"

definition helloEvent :: gmap where
  "helloEvent =
     [(''event_type'', GStr ''message''),
      (''message_id'', GStr ''3EB0ABC123''),
      (''from'', GStr ''61400000000@s.whatsapp.net''),
      (''chat'', GStr ''61400000000@s.whatsapp.net''),
      (''is_group'', GBool False),
      (''is_from_me'', GBool False),
      (''message_type'', GStr ''conversation''),
      (''text_content'', GStr ''hello there'')]"

text \<open>
  The scenarios. A request is what \<^verbatim>\<open>json.Unmarshal\<close> gives the operation handler, so its
  numbers are \<^verbatim>\<open>float64\<close>. \<open>greeterSystem\<close> is the engine after the end-to-end handler has
  been registered in an empty store and loaded.
\<close>

definition helloRequest :: gmap where
  "helloRequest =
     [(''handler_id'', GStr ''greeter''),
      (''event_filter'', GMap helloFilter),
      (''action'', GMap helloAction)]"

definition startSystem :: "gmap list \<Rightarrow> System" where
  "startSystem requests =
     (let db = fold (\<lambda>request db. snd (handleRegisterHandler plainWorld 1700000000000000000
                        (Some request) db)) requests emptyDatabase
      in \<lparr>database = db,
          matcher = (case LoadHandlers plainWorld db NewEventMatcher of
                       Inr em \<Rightarrow> em
                     | Inl err \<Rightarrow> NewEventMatcher),
          calls = []\<rparr>)"

definition greeterSystem :: System where
  "greeterSystem = startSystem [helloRequest]"

text \<open>
  A handler with a circuit breaker of threshold 2 and a reset window of 60 seconds whose
  scripted action fails on every run (the tool server is not connected).
\<close>

definition flakyRequest :: gmap where
  "flakyRequest =
     [(''handler_id'', GStr ''flaky''),
      (''event_filter'', GMap [(''event_types'', GList [GStr ''message''])]),
      (''action'', GMap [(''type'', GStr ''python''), (''code'', GStr ''return {}'')]),
      (''circuit_breaker_enabled'', GBool True),
      (''circuit_breaker_threshold'', GFloat 2),
      (''circuit_breaker_reset_seconds'', GFloat 60)]"

definition flakySystem :: System where
  "flakySystem = startSystem [flakyRequest]"

text \<open>The stored row of a handler, and a run of the engine that stops at a panic.\<close>

definition storedRow :: "System \<Rightarrow> string \<Rightarrow> HandlerRow option" where
  "storedRow sys handlerID =
     (case rowsOf (database sys) handlerID of [] \<Rightarrow> None | row # _ \<Rightarrow> Some row)"

definition thenEvent :: "instant \<Rightarrow> gmap \<Rightarrow> error + System \<Rightarrow> error + System" where
  "thenEvent now event r =
     (case r of Inl err \<Rightarrow> Inl err | Inr sys \<Rightarrow> ExecuteHandlersForEvent plainWorld now event sys)"

text \<open>Four handlers that accept every message, registered with priorities 5, 1, 5, 3.\<close>

definition priorityRequest :: "string \<Rightarrow> real \<Rightarrow> gmap" where
  "priorityRequest handlerID priority =
     [(''handler_id'', GStr handlerID),
      (''event_filter'', GMap [(''event_types'', GList [GStr ''message''])]),
      (''action'', GMap [(''type'', GStr ''actions''), (''actions'', GList [])]),
      (''priority'', GFloat priority)]"

definition fourSystem :: System where
  "fourSystem =
     startSystem [priorityRequest ''alpha'' 5, priorityRequest ''bravo'' 1,
                  priorityRequest ''charlie'' 5, priorityRequest ''delta'' 3]"

text \<open>
  Two handlers that accept every message: \<^verbatim>\<open>alpha\<close> of priority 5, limited to one
  execution per minute, and \<^verbatim>\<open>bravo\<close> of priority 1. \<open>matchedIds\<close> are the handler ids
  of a \<open>MatchEvent\<close> call on the matcher of an engine.
\<close>

definition limitedRequest :: gmap where
  "limitedRequest =
     priorityRequest ''alpha'' 5 @ [(''max_executions_per_minute'', GFloat 1)]"

definition limitedSystem :: System where
  "limitedSystem = startSystem [limitedRequest, priorityRequest ''bravo'' 1]"

definition matchedIds :: "instant \<Rightarrow> gmap \<Rightarrow> System \<Rightarrow> error + string list" where
  "matchedIds now event sys =
     map_sum id (map idOf) (matchList plainWorld event now (matcher sys))"

text \<open>A request with every required field and a priority that is a list.\<close>

definition listPriorityRequest :: gmap where
  "listPriorityRequest =
     [(''handler_id'', GStr ''greeter''),
      (''event_filter'', GMap helloFilter),
      (''action'', GMap helloAction),
      (''priority'', GList [GFloat 1])]"

text \<open>
  What the breaker scenarios read in a stored row: the breaker state, the execution
  count, the error count, the last error with its time, and the creation time.
\<close>

definition rowFacts ::
    "HandlerRow \<Rightarrow> string option \<times> int \<times> int \<times> string option \<times> instant option \<times> instant" where
  "rowFacts r =
     (row_circuit_breaker_state r, row_execution_count r, row_total_errors r,
      row_last_error r, row_last_error_time r, row_created_at r)"

text \<open>The store of \<open>flakySystem\<close> after the statistics of two failed runs have been written
  (at seconds 5 and 6 after the registration).\<close>

definition twoErrorStore :: Database where
  "twoErrorStore =
     (let db0 = database flakySystem;
          db1 = orUnchanged db0
                  (UpdateHandlerStats 1700000005000000000 ''flaky'' False ''boom'' db0)
      in orUnchanged db1 (UpdateHandlerStats 1700000006000000000 ''flaky'' False ''boom'' db1))"

section \<open>Verified properties\<close>

subsection \<open>Variable substitution\<close>

lemma split_braced:
  assumes "length v > 7"
  shows "v = take 7 v @ take (length v - 1 - 7) (drop 7 v) @ drop (length v - 1) v"
proof -
  have "drop 7 v = take (length v - 1 - 7) (drop 7 v) @ drop (length v - 1 - 7) (drop 7 v)"
    by (rule append_take_drop_id [symmetric])
  moreover have "drop (length v - 1 - 7) (drop 7 v) = drop (length v - 1) v"
    using assms by simp
  ultimately have "drop 7 v = take (length v - 1 - 7) (drop 7 v) @ drop (length v - 1) v"
    by simp
  then show ?thesis
    by (metis append_take_drop_id)
qed

text \<open>
  C8. A string that is exactly \<^verbatim>\<open>{event.<field>}\<close> is replaced by the event context's
  value for \<^verbatim>\<open><field>\<close> when the context has that field, and stays as it is otherwise;
  every string not of that form (a partial interpolation such as
  \<^verbatim>\<open>hello {event.from}\<close>) is returned unchanged; maps and lists are substituted
  entry by entry; every non-string scalar is returned unchanged.
\<close>

theorem substituteValue_whole_value:
  "(\<forall>field v. map_of eventData field = Some v \<longrightarrow>
      substituteValue (GStr (''{event.'' @ field @ ''}'')) eventData = v)
   \<and> (\<forall>field. map_of eventData field = None \<longrightarrow>
      substituteValue (GStr (''{event.'' @ field @ ''}'')) eventData
        = GStr (''{event.'' @ field @ ''}''))
   \<and> (\<forall>s. (\<forall>field. s \<noteq> ''{event.'' @ field @ ''}'') \<longrightarrow>
      substituteValue (GStr s) eventData = GStr s)
   \<and> (\<forall>m. substituteValue (GMap m) eventData
        = GMap (map (\<lambda>(k, val). (k, substituteValue val eventData)) m))
   \<and> (\<forall>vs. substituteValue (GList vs) eventData
        = GList (map (\<lambda>val. substituteValue val eventData) vs))
   \<and> substituteValue GNil eventData = GNil
   \<and> (\<forall>b. substituteValue (GBool b) eventData = GBool b)
   \<and> (\<forall>n. substituteValue (GInt n) eventData = GInt n)
   \<and> (\<forall>n. substituteValue (GInt64 n) eventData = GInt64 n)
   \<and> (\<forall>r. substituteValue (GFloat r) eventData = GFloat r)
   \<and> (\<forall>t. substituteValue (GTime t) eventData = GTime t)"
proof -
  have present: "\<forall>field v. map_of eventData field = Some v \<longrightarrow>
      substituteValue (GStr (''{event.'' @ field @ ''}'')) eventData = v"
    by simp
  have absent: "\<forall>field. map_of eventData field = None \<longrightarrow>
      substituteValue (GStr (''{event.'' @ field @ ''}'')) eventData
        = GStr (''{event.'' @ field @ ''}'')"
    by simp
  have other: "\<forall>s. (\<forall>field. s \<noteq> ''{event.'' @ field @ ''}'') \<longrightarrow>
      substituteValue (GStr s) eventData = GStr s"
  proof (intro allI impI)
    fix s :: string
    assume nf: "\<forall>field. s \<noteq> ''{event.'' @ field @ ''}''"
    have "\<not> (length s > 7 \<and> take 7 s = ''{event.'' \<and> drop (length s - 1) s = ''}'')"
    proof
      assume c: "length s > 7 \<and> take 7 s = ''{event.'' \<and> drop (length s - 1) s = ''}''"
      then have "s = ''{event.'' @ take (length s - 1 - 7) (drop 7 s) @ ''}''"
        using split_braced [of s] by simp
      with nf show False by blast
    qed
    then show "substituteValue (GStr s) eventData = GStr s"
      by (simp only: substituteValue.simps if_False)
  qed
  have maps: "\<forall>m. substituteValue (GMap m) eventData
        = GMap (map (\<lambda>(k, val). (k, substituteValue val eventData)) m)"
    by (simp add: map_prod_def)
  show ?thesis
    using present absent other maps by simp
qed

text \<open>The three string cases of C8 at a concrete event context.\<close>

theorem substituteValue_whole_value_witness:
  "substituteValue (GStr ''{event.from}'') [(''from'', GStr ''61400000000@s.whatsapp.net'')]
     = GStr ''61400000000@s.whatsapp.net''
   \<and> substituteValue (GStr ''{event.chat}'') [(''from'', GStr ''61400000000@s.whatsapp.net'')]
     = GStr ''{event.chat}''
   \<and> substituteValue (GStr ''hello {event.from}'') [(''from'', GStr ''61400000000@s.whatsapp.net'')]
     = GStr ''hello {event.from}''"
proof -
  let ?ed = "[(''from'', GStr ''61400000000@s.whatsapp.net'')]"
  have a: "map_of ?ed ''from'' = Some (GStr ''61400000000@s.whatsapp.net'')" by simp
  have b: "map_of ?ed ''chat'' = None" by simp
  have c: "\<forall>field. ''hello {event.from}'' \<noteq> ''{event.'' @ field @ ''}''" by simp
  from substituteValue_whole_value [of ?ed] a b c
  have "substituteValue (GStr (''{event.'' @ ''from'' @ ''}'')) ?ed = GStr ''61400000000@s.whatsapp.net''"
    and "substituteValue (GStr (''{event.'' @ ''chat'' @ ''}'')) ?ed = GStr (''{event.'' @ ''chat'' @ ''}'')"
    and "substituteValue (GStr ''hello {event.from}'') ?ed = GStr ''hello {event.from}''"
    by blast+
  then show ?thesis by simp
qed

subsection \<open>Filter semantics\<close>

lemma containsString_iff: "containsString xs s \<longleftrightarrow> GStr s \<in> set xs"
proof (induction xs)
  case Nil
  show ?case by simp
next
  case (Cons item rest)
  show ?case
    by (cases item) (use Cons.IH in auto)
qed

lemma keywordMatched_iff:
  "keywordMatched w t ks \<longleftrightarrow>
     (\<exists>keyword \<in> set ks. case keyword of GStr k \<Rightarrow> sublist (ToLower w k) t | _ \<Rightarrow> False)"
proof (induction ks)
  case Nil
  show ?case by simp
next
  case (Cons keyword rest)
  show ?case
    by (cases keyword) (use Cons.IH in \<open>auto simp: Contains_def\<close>)
qed

lemma member_check:
  "(case asList (map_of flt c) of
      Some xs \<Rightarrow> length xs > 0 \<and> \<not> containsString xs v
    | None \<Rightarrow> False) = (\<not> spec_member_clause flt c v)"
  by (auto simp: spec_member_clause_def containsString_iff split: option.splits)

lemma bool_check:
  "(case asBool (map_of flt c) of Some b \<Rightarrow> b \<noteq> v | None \<Rightarrow> False)
     = (\<not> spec_bool_clause flt c v)"
  by (auto simp: spec_bool_clause_def split: option.splits)

lemma group_check:
  "(case asList (map_of flt ''group_jids'') of
      Some groupJIDs \<Rightarrow> length groupJIDs > 0 \<and>
        (\<not> boolOrZero (map_of event ''is_group'') \<or>
         \<not> containsString groupJIDs (stringOrZero (map_of event ''chat'')))
    | None \<Rightarrow> False) = (\<not> spec_group_clause flt event)"
  by (auto simp: spec_group_clause_def containsString_iff split: option.splits)

lemma nonempty_field:
  "(case asString (map_of event f) of Some s \<Rightarrow> s \<noteq> [] | None \<Rightarrow> False)
     = spec_nonempty_field event f"
  by (simp add: spec_nonempty_field_def split: option.splits)

lemma text_contains_check:
  "(case asList (map_of flt ''text_contains'') of
      Some textContains \<Rightarrow> length textContains > 0 \<and>
        \<not> keywordMatched w (ToLower w (stringOrZero (map_of event ''text_content''))) textContains
    | None \<Rightarrow> False) = (\<not> spec_text_contains_clause w flt event)"
  by (auto simp: spec_text_contains_clause_def keywordMatched_iff split: option.splits)

lemma text_regex_check:
  "(case asString (map_of flt ''text_regex'') of
      Some textRegex \<Rightarrow> textRegex \<noteq> [] \<and>
        (case MatchString w textRegex (stringOrZero (map_of event ''text_content'')) of
           None \<Rightarrow> True
         | Some matched \<Rightarrow> \<not> matched)
    | None \<Rightarrow> False) = (\<not> spec_text_regex_clause w flt event)"
  by (auto simp: spec_text_regex_clause_def split: option.splits)

text \<open>An early \<^verbatim>\<open>return false\<close> is a conjunct of the result.\<close>

lemma early_return: "(if \<not> a then False else r) = (a \<and> r)"
  by simp

text \<open>
  C5. For a handler whose \<^verbatim>\<open>event_filter\<close> is a map, \<open>matchesFilter\<close> returns true exactly
  when every present clause of the filter is satisfied by the event under the clause
  semantics of the specification: absent and empty-list clauses are satisfied, list clauses
  are membership tests, boolean clauses are equalities (against the derived non-empty-field
  boolean for \<^verbatim>\<open>has_media\<close> and \<^verbatim>\<open>has_quoted_message\<close>), \<^verbatim>\<open>group_jids\<close> also needs a group
  event, \<^verbatim>\<open>text_contains\<close> is a substring test after lower-casing both sides, and
  \<^verbatim>\<open>text_regex\<close> is satisfied only by a pattern that compiles and matches.
\<close>

theorem matchesFilter_clause_semantics:
  assumes "map_of handler ''event_filter'' = Some (GMap flt)"
  shows "matchesFilter w handler event = spec_filter_matches w flt event"
proof -
  have "matchesFilter w handler event =
     (spec_member_clause flt ''event_types'' (stringOrZero (map_of event ''event_type''))
      \<and> spec_bool_clause flt ''is_from_me'' (boolOrZero (map_of event ''is_from_me''))
      \<and> spec_member_clause flt ''message_types'' (stringOrZero (map_of event ''message_type''))
      \<and> spec_member_clause flt ''from_jids'' (stringOrZero (map_of event ''from''))
      \<and> spec_member_clause flt ''chat_jids'' (stringOrZero (map_of event ''chat''))
      \<and> spec_bool_clause flt ''is_group'' (boolOrZero (map_of event ''is_group''))
      \<and> spec_group_clause flt event
      \<and> spec_bool_clause flt ''has_media'' (spec_nonempty_field event ''media_type'')
      \<and> spec_bool_clause flt ''has_quoted_message''
            (spec_nonempty_field event ''quoted_message_id'')
      \<and> spec_text_contains_clause w flt event
      \<and> spec_text_regex_clause w flt event
      \<and> True)"
    unfolding matchesFilter_def assms
    by (simp only: asMap.simps option.case member_check bool_check group_check nonempty_field
          text_contains_check text_regex_check early_return)
  then show ?thesis
    by (simp only: spec_filter_matches_def simp_thms)
qed

text \<open>
  The filter of the end-to-end scenario accepts the scenario's event and rejects the same
  text sent by the account itself.
\<close>

theorem matchesFilter_clause_semantics_witness:
  "map_of [(''handler_id'', GStr ''greeter''), (''event_filter'', GMap helloFilter)]
       ''event_filter'' = Some (GMap helloFilter)
   \<and> matchesFilter plainWorld
         [(''handler_id'', GStr ''greeter''), (''event_filter'', GMap helloFilter)] helloEvent
   \<and> \<not> matchesFilter plainWorld
         [(''handler_id'', GStr ''greeter''), (''event_filter'', GMap helloFilter)]
         [(''event_type'', GStr ''message''), (''is_from_me'', GBool True),
          (''text_content'', GStr ''hello there'')]"
proof -
  let ?h = "[(''handler_id'', GStr ''greeter''), (''event_filter'', GMap helloFilter)]"
  let ?e = "[(''event_type'', GStr ''message''), (''is_from_me'', GBool True),
          (''text_content'', GStr ''hello there'')]"
  have h: "map_of ?h ''event_filter'' = Some (GMap helloFilter)"
    by simp
  have yes: "spec_filter_matches plainWorld helloFilter helloEvent"
    by code_simp
  have no: "\<not> spec_filter_matches plainWorld helloFilter ?e"
    by code_simp
  show ?thesis
    using h yes no matchesFilter_clause_semantics [OF h, of plainWorld] by simp
qed

subsection \<open>Rate limiting\<close>

lemma map_of_update: "map_of (AList.update k v al) k' = (if k' = k then Some v else map_of al k')"
  by (simp add: update_conv')

lemma counter_update: "counter (AList.update k v m) k' = (if k' = k then v else counter m k')"
  by (simp add: counter_def map_of_update)

lemma map_of_dropOld:
  "map_of (dropOld oldest m) k = (if k < oldest then None else map_of m k)"
  by (induction m) (auto simp: dropOld_def)

lemma counter_dropOld: "counter (dropOld oldest m) k = (if k < oldest then 0 else counter m k)"
  by (simp add: counter_def map_of_dropOld)

lemma quot_mono_7200_60: "quot (x - 7200) 60 \<le> quot x 60"
  unfolding quot_def by auto

lemma checkLimiter_normal:
  "checkLimiter handler event now limiter =
     (if limitReached handler ''max_executions_per_minute''
           (counter (perMinuteCounts limiter) (quot (Unix now) 60)) then (False, limiter)
      else if limitReached handler ''max_executions_per_hour''
           (counter (perHourCounts limiter) (quot (Unix now) 3600)) then (False, limiter)
      else if senderEnforced handler event then
        (\<not> limitReached handler ''max_executions_per_sender_per_hour''
            (senderCounter (touchSender (stringOrZero (map_of event ''from'')) limiter)
               (stringOrZero (map_of event ''from'')) (quot (Unix now) 3600)),
         touchSender (stringOrZero (map_of event ''from'')) limiter)
      else (True, limiter))"
  unfolding checkLimiter_def Let_def limitReached_def senderEnforced_def touchSender_def
  by (simp split: option.split)

lemma senderCounter_touch [simp]:
  "senderCounter (touchSender s limiter) sender hour = senderCounter limiter sender hour"
  by (simp add: touchSender_def senderCounter_def map_of_update counter_def)

lemma touchSender_fields [simp]:
  "perMinuteCounts (touchSender s limiter) = perMinuteCounts limiter"
  "perHourCounts (touchSender s limiter) = perHourCounts limiter"
  "lastExecution (touchSender s limiter) = lastExecution limiter"
  by (simp_all add: touchSender_def)

lemma touchSender_idem [simp]: "touchSender s (touchSender s limiter) = touchSender s limiter"
  by (simp add: touchSender_def map_of_update)

lemma checkLimiter_counts:
  assumes "checkLimiter handler event now limiter = (ok, limiter1)"
  shows "perMinuteCounts limiter1 = perMinuteCounts limiter"
    and "perHourCounts limiter1 = perHourCounts limiter"
    and "senderCounter limiter1 sender hour = senderCounter limiter sender hour"
    and "lastExecution limiter1 = lastExecution limiter"
    and "checkLimiter handler event now limiter1 = (ok, limiter1)"
  using assms unfolding checkLimiter_normal
  by (auto split: if_splits)

lemma limiterFor_lookup:
  assumes "limiterFor handlerID em = (limiter, em1)"
  shows "map_of (rateLimits em1) k = (if k = handlerID then Some limiter else map_of (rateLimits em) k)"
    and "handlers em1 = handlers em"
    and "map_of (rateLimits em) handlerID = None \<Longrightarrow> limiter = newRateLimiter"
    and "map_of (rateLimits em) handlerID = Some l \<Longrightarrow> limiter = l"
  using assms by (auto simp: limiterFor_def map_of_update split: option.splits)

lemma storeLimiter_lookup:
  "map_of (rateLimits (storeLimiter handlerID limiter em)) k
     = (if k = handlerID then Some limiter else map_of (rateLimits em) k)"
  "handlers (storeLimiter handlerID limiter em) = handlers em"
  by (simp_all add: storeLimiter_def map_of_update)

lemma limiterFor_present:
  "map_of (rateLimits em) handlerID = Some limiter \<Longrightarrow> limiterFor handlerID em = (limiter, em)"
  by (simp add: limiterFor_def)

lemma storeLimiter_idem:
  "storeLimiter handlerID limiter (storeLimiter handlerID limiter em)
     = storeLimiter handlerID limiter em"
  by (simp add: storeLimiter_def)

text \<open>
  C7. A \<open>checkRateLimits\<close> call on a handler with a string \<^verbatim>\<open>handler_id\<close> returns, and it
  leaves every per-minute, per-hour and per-sender-per-hour bucket count and every
  handler's last-execution time as they were (it may allocate an empty limiter or an empty
  sender map, which read as zero); the registry snapshot is untouched, and the same call
  repeated at the same clock time gives the same answer.
\<close>

theorem checkRateLimits_pure_read:
  assumes hid: "map_of handler ''handler_id'' = Some (GStr handlerID)"
  shows "\<exists>allowed em'.
           checkRateLimits handler event now em = Inr (allowed, em')
         \<and> (\<forall>h minute. minuteCount em' h minute = minuteCount em h minute)
         \<and> (\<forall>h hour. hourCount em' h hour = hourCount em h hour)
         \<and> (\<forall>h sender hour. senderHourCount em' h sender hour = senderHourCount em h sender hour)
         \<and> (\<forall>h. lastExecutionOf em' h = lastExecutionOf em h)
         \<and> handlers em' = handlers em
         \<and> checkRateLimits handler event now em' = Inr (allowed, em')"
proof -
  obtain limiter em1 where lf: "limiterFor handlerID em = (limiter, em1)"
    by force
  obtain ok limiter1 where cl: "checkLimiter handler event now limiter = (ok, limiter1)"
    by force
  let ?em' = "storeLimiter handlerID limiter1 em1"
  have res: "checkRateLimits handler event now em = Inr (ok, ?em')"
    using hid lf cl by (simp add: checkRateLimits_def)
  have look: "\<And>k. map_of (rateLimits ?em') k
                = (if k = handlerID then Some limiter1 else map_of (rateLimits em) k)"
    by (simp add: storeLimiter_lookup limiterFor_lookup(1) [OF lf])
  have zero: "map_of (rateLimits em) handlerID = None \<Longrightarrow> limiter = newRateLimiter"
    by (rule limiterFor_lookup(3) [OF lf])
  have same: "\<And>l. map_of (rateLimits em) handlerID = Some l \<Longrightarrow> limiter = l"
    by (rule limiterFor_lookup(4) [OF lf])
  note keep = checkLimiter_counts [OF cl]
  have minute: "minuteCount ?em' h m = minuteCount em h m" for h m
    using zero same keep(1)
    by (cases "map_of (rateLimits em) handlerID")
       (auto simp: minuteCount_def look newRateLimiter_def counter_def)
  have hour: "hourCount ?em' h m = hourCount em h m" for h m
    using zero same keep(2)
    by (cases "map_of (rateLimits em) handlerID")
       (auto simp: hourCount_def look newRateLimiter_def counter_def)
  have sender: "senderHourCount ?em' h s m = senderHourCount em h s m" for h s m
    using zero same keep(3) [of s m]
    by (cases "map_of (rateLimits em) handlerID")
       (auto simp: senderHourCount_def look newRateLimiter_def senderCounter_def)
  have last: "lastExecutionOf ?em' h = lastExecutionOf em h" for h
    using zero same keep(4)
    by (cases "map_of (rateLimits em) handlerID")
       (auto simp: lastExecutionOf_def look newRateLimiter_def)
  have hs: "handlers ?em' = handlers em"
    by (simp add: storeLimiter_lookup limiterFor_lookup(2) [OF lf])
  have "limiterFor handlerID ?em' = (limiter1, ?em')"
    by (rule limiterFor_present) (simp add: look)
  then have again: "checkRateLimits handler event now ?em' = Inr (ok, ?em')"
    using hid keep(5) by (simp add: checkRateLimits_def storeLimiter_idem)
  show ?thesis
    using res minute hour sender last hs again by blast
qed

lemma limitReached_nonpositive:
  "map_of handler key = Some (GInt64 n) \<Longrightarrow> n \<le> 0 \<Longrightarrow> \<not> limitReached handler key x"
  by (simp add: limitReached_def)

lemma limitReached_delete:
  assumes "map_of handler key = Some (GInt64 n)" "n \<le> 0"
  shows "limitReached (AList.delete key handler) key' x = limitReached handler key' x"
  using assms by (simp add: limitReached_def delete_conv')

lemma senderEnforced_delete:
  assumes "map_of handler key = Some (GInt64 n)" "n \<le> 0"
  shows "senderEnforced (AList.delete key handler) event = senderEnforced handler event"
  using assms by (simp add: senderEnforced_def delete_conv')

lemma checkLimiter_delete:
  assumes "map_of handler key = Some (GInt64 n)" "n \<le> 0"
  shows "checkLimiter (AList.delete key handler) event now limiter
           = checkLimiter handler event now limiter"
  by (simp only: checkLimiter_normal limitReached_delete [OF assms] senderEnforced_delete [OF assms])

lemma checkRateLimits_delete:
  assumes "map_of handler key = Some (GInt64 n)" "n \<le> 0" "key \<noteq> ''handler_id''"
  shows "checkRateLimits (AList.delete key handler) event now em
           = checkRateLimits handler event now em"
  using assms(3)
  by (simp add: checkRateLimits_def checkLimiter_delete [OF assms(1,2)] delete_conv'
        split: option.split)

lemma checkRateLimits_total:
  assumes "map_of handler ''handler_id'' = Some (GStr handlerID)"
  shows "\<exists>em'. checkRateLimits handler event now em
            = Inr (fst (checkLimiter handler event now (fst (limiterFor handlerID em))), em')"
  using assms by (simp add: checkRateLimits_def split: prod.split)

text \<open>
  C10. A limit configured as zero or negative never blocks: for each of the three limits,
  \<open>checkRateLimits\<close> answers exactly as it does for the handler without that limit,
  whatever the bucket counts are; and a handler whose three limits are all non-positive is
  always allowed.
\<close>

theorem nonpositive_limits_never_block:
  "(\<forall>n. map_of handler ''max_executions_per_minute'' = Some (GInt64 n) \<and> n \<le> 0 \<longrightarrow>
       checkRateLimits handler event now em
         = checkRateLimits (AList.delete ''max_executions_per_minute'' handler) event now em)
   \<and> (\<forall>n. map_of handler ''max_executions_per_hour'' = Some (GInt64 n) \<and> n \<le> 0 \<longrightarrow>
       checkRateLimits handler event now em
         = checkRateLimits (AList.delete ''max_executions_per_hour'' handler) event now em)
   \<and> (\<forall>n. map_of handler ''max_executions_per_sender_per_hour'' = Some (GInt64 n) \<and> n \<le> 0 \<longrightarrow>
       checkRateLimits handler event now em
         = checkRateLimits (AList.delete ''max_executions_per_sender_per_hour'' handler)
             event now em)
   \<and> (\<forall>handlerID a b c.
         map_of handler ''handler_id'' = Some (GStr handlerID)
       \<and> map_of handler ''max_executions_per_minute'' = Some (GInt64 a) \<and> a \<le> 0
       \<and> map_of handler ''max_executions_per_hour'' = Some (GInt64 b) \<and> b \<le> 0
       \<and> map_of handler ''max_executions_per_sender_per_hour'' = Some (GInt64 c) \<and> c \<le> 0
       \<longrightarrow> (\<exists>em'. checkRateLimits handler event now em = Inr (True, em')))"
proof (intro conjI allI impI)
  fix n
  assume "map_of handler ''max_executions_per_minute'' = Some (GInt64 n) \<and> n \<le> 0"
  then show "checkRateLimits handler event now em
         = checkRateLimits (AList.delete ''max_executions_per_minute'' handler) event now em"
    using checkRateLimits_delete [of handler "''max_executions_per_minute''" n event now em]
    by simp
next
  fix n
  assume "map_of handler ''max_executions_per_hour'' = Some (GInt64 n) \<and> n \<le> 0"
  then show "checkRateLimits handler event now em
         = checkRateLimits (AList.delete ''max_executions_per_hour'' handler) event now em"
    using checkRateLimits_delete [of handler "''max_executions_per_hour''" n event now em]
    by simp
next
  fix n
  assume "map_of handler ''max_executions_per_sender_per_hour'' = Some (GInt64 n) \<and> n \<le> 0"
  then show "checkRateLimits handler event now em
         = checkRateLimits (AList.delete ''max_executions_per_sender_per_hour'' handler)
             event now em"
    using checkRateLimits_delete
      [of handler "''max_executions_per_sender_per_hour''" n event now em]
    by simp
next
  fix handlerID a b c
  assume a: "map_of handler ''handler_id'' = Some (GStr handlerID)
       \<and> map_of handler ''max_executions_per_minute'' = Some (GInt64 a) \<and> a \<le> 0
       \<and> map_of handler ''max_executions_per_hour'' = Some (GInt64 b) \<and> b \<le> 0
       \<and> map_of handler ''max_executions_per_sender_per_hour'' = Some (GInt64 c) \<and> c \<le> 0"
  then have "fst (checkLimiter handler event now (fst (limiterFor handlerID em)))"
    by (simp add: checkLimiter_normal limitReached_def senderEnforced_def)
  then show "\<exists>em'. checkRateLimits handler event now em = Inr (True, em')"
    using checkRateLimits_total [of handler handlerID event now em] a by simp
qed


lemma minuteCount_RecordExecution:
  "minuteCount (RecordExecution handlerID event t em) handlerID m =
     (if m < quot (Unix t - 7200) 60 then 0
      else if m = quot (Unix t) 60 then minuteCount em handlerID m + 1
      else minuteCount em handlerID m)"
proof -
  obtain limiter em1 where lf: "limiterFor handlerID em = (limiter, em1)"
    by force
  have c: "counter (perMinuteCounts limiter) k = minuteCount em handlerID k" for k
    using limiterFor_lookup(3,4) [OF lf]
    by (cases "map_of (rateLimits em) handlerID")
       (auto simp: minuteCount_def newRateLimiter_def counter_def)
  have "minuteCount (RecordExecution handlerID event t em) handlerID m
          = counter (perMinuteCounts (recordOnLimiter event t limiter)) m"
    by (simp add: RecordExecution_def lf minuteCount_def storeLimiter_lookup)
  also have "\<dots> = (if m < quot (Unix t - 7200) 60 then 0
      else if m = quot (Unix t) 60 then counter (perMinuteCounts limiter) m + 1
      else counter (perMinuteCounts limiter) m)"
    by (simp add: recordOnLimiter_def Let_def counter_dropOld counter_update)
  finally show ?thesis
    by (simp add: c)
qed

lemma checkRateLimits_minute_only:
  assumes hid: "map_of handler ''handler_id'' = Some (GStr handlerID)"
    and lim: "map_of handler ''max_executions_per_minute'' = Some (GInt64 n)" "0 < n"
    and nohour: "map_of handler ''max_executions_per_hour'' = None"
    and nosender: "map_of handler ''max_executions_per_sender_per_hour'' = None"
  shows "\<exists>em'. checkRateLimits handler event t em
           = Inr (\<not> n \<le> minuteCount em handlerID (quot (Unix t) 60), em')"
proof -
  obtain limiter em1 where lf: "limiterFor handlerID em = (limiter, em1)"
    by force
  have c: "counter (perMinuteCounts limiter) k = minuteCount em handlerID k" for k
    using limiterFor_lookup(3,4) [OF lf]
    by (cases "map_of (rateLimits em) handlerID")
       (auto simp: minuteCount_def newRateLimiter_def counter_def)
  have "fst (checkLimiter handler event t limiter)
          = (\<not> n \<le> minuteCount em handlerID (quot (Unix t) 60))"
    using lim nohour nosender
    by (simp add: checkLimiter_normal limitReached_def senderEnforced_def c)
  then show ?thesis
    using checkRateLimits_total [OF hid, of event t em] lf by simp
qed

text \<open>
  C6. For a handler limited to three executions per minute (and by nothing else), after
  three \<open>RecordExecution\<close> calls in one minute bucket (\<^verbatim>\<open>now.Unix() / 60\<close>) a
  \<open>checkRateLimits\<close> call in that bucket answers blocked, and a call in a later minute
  bucket, with no recording in between, answers allowed. The counters start anywhere a
  run can leave them: the bucket of the recordings holds a count that is not negative, and
  the later bucket has not reached the limit (a fresh limiter reads zero in both).
\<close>

theorem minute_bucket_rate_limit:
  assumes hid: "map_of handler ''handler_id'' = Some (GStr handlerID)"
    and lim: "map_of handler ''max_executions_per_minute'' = Some (GInt64 3)"
    and nohour: "map_of handler ''max_executions_per_hour'' = None"
    and nosender: "map_of handler ''max_executions_per_sender_per_hour'' = None"
    and before: "0 \<le> minuteCount em handlerID (quot (Unix t1) 60)"
    and room: "minuteCount em handlerID (quot (Unix t5) 60) < 3"
    and same: "quot (Unix t2) 60 = quot (Unix t1) 60" "quot (Unix t3) 60 = quot (Unix t1) 60"
              "quot (Unix t4) 60 = quot (Unix t1) 60"
    and later: "quot (Unix t1) 60 < quot (Unix t5) 60"
  shows "\<exists>em4 em5.
           checkRateLimits handler e4 t4
             (RecordExecution handlerID e3 t3
               (RecordExecution handlerID e2 t2
                 (RecordExecution handlerID e1 t1 em))) = Inr (False, em4)
         \<and> checkRateLimits handler e5 t5
             (RecordExecution handlerID e3 t3
               (RecordExecution handlerID e2 t2
                 (RecordExecution handlerID e1 t1 em))) = Inr (True, em5)"
proof -
  let ?em3 = "RecordExecution handlerID e3 t3
               (RecordExecution handlerID e2 t2
                 (RecordExecution handlerID e1 t1 em))"
  let ?b = "quot (Unix t1) 60"
  have keep: "\<not> quot (Unix t) 60 < quot (Unix t - 7200) 60" for t
    using quot_mono_7200_60 [of "Unix t"] by simp
  have three: "minuteCount ?em3 handlerID ?b = minuteCount em handlerID ?b + 3"
    using keep [of t1] keep [of t2] keep [of t3] same
    by (simp add: minuteCount_RecordExecution)
  have kept: "\<not> quot (Unix t5) 60 < quot (Unix t - 7200) 60"
    if "quot (Unix t) 60 = ?b" for t
    using keep [of t] that later by simp
  have none: "minuteCount ?em3 handlerID (quot (Unix t5) 60)
                = minuteCount em handlerID (quot (Unix t5) 60)"
    using later same kept [of t1] kept [of t2] kept [of t3]
    by (simp add: minuteCount_RecordExecution)
  obtain em4 where r4: "checkRateLimits handler e4 t4 ?em3
           = Inr (\<not> 3 \<le> minuteCount ?em3 handlerID (quot (Unix t4) 60), em4)"
    using checkRateLimits_minute_only [OF hid lim _ nohour nosender, of e4 t4 ?em3] by auto
  obtain em5 where r5: "checkRateLimits handler e5 t5 ?em3
           = Inr (\<not> 3 \<le> minuteCount ?em3 handlerID (quot (Unix t5) 60), em5)"
    using checkRateLimits_minute_only [OF hid lim _ nohour nosender, of e5 t5 ?em3] by auto
  show ?thesis
    using r4 r5 three none same(3) before room by simp
qed

text \<open>C7 at a fresh matcher.\<close>

theorem checkRateLimits_pure_read_witness:
  "map_of [(''handler_id'', GStr ''greeter''), (''max_executions_per_minute'', GInt64 3)]
      ''handler_id'' = Some (GStr ''greeter'')
   \<and> (\<exists>allowed em'.
         checkRateLimits
           [(''handler_id'', GStr ''greeter''), (''max_executions_per_minute'', GInt64 3)]
           helloEvent 1700000000000000000 NewEventMatcher = Inr (allowed, em')
       \<and> minuteCount em' ''greeter'' 28333333 = minuteCount NewEventMatcher ''greeter'' 28333333
       \<and> lastExecutionOf em' ''greeter'' = lastExecutionOf NewEventMatcher ''greeter''
       \<and> checkRateLimits
           [(''handler_id'', GStr ''greeter''), (''max_executions_per_minute'', GInt64 3)]
           helloEvent 1700000000000000000 em' = Inr (allowed, em'))"
proof -
  let ?h = "[(''handler_id'', GStr ''greeter''), (''max_executions_per_minute'', GInt64 3)]"
  have h: "map_of ?h ''handler_id'' = Some (GStr ''greeter'')"
    by simp
  show ?thesis
    using h checkRateLimits_pure_read [OF h, of helloEvent 1700000000000000000 NewEventMatcher]
    by blast
qed

text \<open>C10 for limits 0, -1 and 0.\<close>

theorem nonpositive_limits_never_block_witness:
  "checkRateLimits
      [(''handler_id'', GStr ''greeter''), (''max_executions_per_minute'', GInt64 0),
       (''max_executions_per_hour'', GInt64 (- 1)),
       (''max_executions_per_sender_per_hour'', GInt64 0)]
      helloEvent 1700000000000000000 NewEventMatcher
    = checkRateLimits
        (AList.delete ''max_executions_per_hour''
          [(''handler_id'', GStr ''greeter''), (''max_executions_per_minute'', GInt64 0),
           (''max_executions_per_hour'', GInt64 (- 1)),
           (''max_executions_per_sender_per_hour'', GInt64 0)])
        helloEvent 1700000000000000000 NewEventMatcher
   \<and> (\<exists>em'. checkRateLimits
      [(''handler_id'', GStr ''greeter''), (''max_executions_per_minute'', GInt64 0),
       (''max_executions_per_hour'', GInt64 (- 1)),
       (''max_executions_per_sender_per_hour'', GInt64 0)]
      helloEvent 1700000000000000000 NewEventMatcher = Inr (True, em'))"
proof -
  let ?h = "[(''handler_id'', GStr ''greeter''), (''max_executions_per_minute'', GInt64 0),
       (''max_executions_per_hour'', GInt64 (- 1)),
       (''max_executions_per_sender_per_hour'', GInt64 0)]"
  have a: "map_of ?h ''max_executions_per_hour'' = Some (GInt64 (- 1)) \<and> (- 1 :: int) \<le> 0"
    by simp
  have b: "map_of ?h ''handler_id'' = Some (GStr ''greeter'')
       \<and> map_of ?h ''max_executions_per_minute'' = Some (GInt64 0) \<and> (0::int) \<le> 0
       \<and> map_of ?h ''max_executions_per_hour'' = Some (GInt64 (- 1)) \<and> (- 1 :: int) \<le> 0
       \<and> map_of ?h ''max_executions_per_sender_per_hour'' = Some (GInt64 0) \<and> (0::int) \<le> 0"
    by simp
  show ?thesis
    using a b
      nonpositive_limits_never_block [of ?h helloEvent 1700000000000000000 NewEventMatcher]
    by blast
qed

text \<open>C6 with recordings at seconds 0, 10 and 20 of one minute, a check at second 30 and a
  check at second 40, which is in the next minute bucket.\<close>

theorem minute_bucket_rate_limit_witness:
  "\<exists>em4 em5.
      checkRateLimits
        [(''handler_id'', GStr ''greeter''), (''max_executions_per_minute'', GInt64 3)]
        helloEvent 1700000030000000000
        (RecordExecution ''greeter'' helloEvent 1700000020000000000
          (RecordExecution ''greeter'' helloEvent 1700000010000000000
            (RecordExecution ''greeter'' helloEvent 1700000000000000000 NewEventMatcher)))
        = Inr (False, em4)
    \<and> checkRateLimits
        [(''handler_id'', GStr ''greeter''), (''max_executions_per_minute'', GInt64 3)]
        helloEvent 1700000040000000000
        (RecordExecution ''greeter'' helloEvent 1700000020000000000
          (RecordExecution ''greeter'' helloEvent 1700000010000000000
            (RecordExecution ''greeter'' helloEvent 1700000000000000000 NewEventMatcher)))
        = Inr (True, em5)"
proof -
  let ?h = "[(''handler_id'', GStr ''greeter''), (''max_executions_per_minute'', GInt64 3)]"
  have hid: "map_of ?h ''handler_id'' = Some (GStr ''greeter'')"
    and lim: "map_of ?h ''max_executions_per_minute'' = Some (GInt64 3)"
    and nohour: "map_of ?h ''max_executions_per_hour'' = None"
    and nosender: "map_of ?h ''max_executions_per_sender_per_hour'' = None"
    by simp_all
  have before: "0 \<le> minuteCount NewEventMatcher ''greeter'' (quot (Unix 1700000000000000000) 60)"
    and room: "minuteCount NewEventMatcher ''greeter'' (quot (Unix 1700000040000000000) 60) < 3"
    by (simp_all add: NewEventMatcher_def minuteCount_def)
  have s2: "quot (Unix 1700000010000000000) 60 = quot (Unix 1700000000000000000) 60"
    and s3: "quot (Unix 1700000020000000000) 60 = quot (Unix 1700000000000000000) 60"
    and s4: "quot (Unix 1700000030000000000) 60 = quot (Unix 1700000000000000000) 60"
    and l5: "quot (Unix 1700000000000000000) 60 < quot (Unix 1700000040000000000) 60"
    by (simp_all add: quot_def Unix_def)
  show ?thesis
    by (rule minute_bucket_rate_limit [OF hid lim nohour nosender before room s2 s3 s4 l5])
qed

subsection \<open>The scenarios on the code\<close>

text \<open>
  C3. The end-to-end scenario on the code: the handler matches, exactly one
  \<^verbatim>\<open>SendMessage\<close> call is made, with \<^verbatim>\<open>to\<close> equal to the event's \<^verbatim>\<open>from\<close>, and exactly one
  execution record is written, with \<^verbatim>\<open>success\<close> set. Its \<^verbatim>\<open>actions_executed\<close> is 0, not 1:
  \<open>executeDirectActions\<close> returns the count under \<^verbatim>\<open>actions_executed\<close>, and \<open>executeHandler\<close>
  counts only what it finds under \<^verbatim>\<open>actions\<close>, which a static action never returns.
\<close>

theorem static_action_record_counts_zero:
  "map_sum id
     (\<lambda>sys. (calls sys,
             map (\<lambda>r. (exec_success r, exec_actions_executed r))
               (handler_executions (database sys))))
     (ExecuteHandlersForEvent plainWorld 1700000005000000000 helloEvent greeterSystem)
   = Inr ([(''SendMessage'',
             [(''to'', GStr ''61400000000@s.whatsapp.net''),
              (''message'', GMap [(''conversation'', GStr ''hi!'')])])],
          [(1, CInt 0)])"
  by code_simp

text \<open>
  C1. A handler with an enabled breaker of threshold 2, no recorded error and state
  \<^verbatim>\<open>closed\<close>: after two failed executions the stored state is still \<^verbatim>\<open>closed\<close>, with two
  errors recorded (\<open>UpdateCircuitBreaker\<close> runs before \<open>UpdateHandlerStats\<close> and reads the
  count without the current failure). The third failure reaches the threshold; the row
  that \<open>SaveHandler\<close> then writes has the default state \<^verbatim>\<open>closed\<close> and fresh counters.
\<close>

theorem breaker_stays_closed_after_failures:
  "map_sum id
     (\<lambda>sys. (map rowFacts (rowsOf (database sys) ''flaky''),
             map exec_success (handler_executions (database sys))))
     (thenEvent 1700000006000000000 helloEvent
       (thenEvent 1700000005000000000 helloEvent (Inr flakySystem)))
   = Inr ([(Some ''closed'', 2, 2, Some ''MCP connection not available'',
            Some 1700000006000000000, 1700000000000000000)], [0, 0])
   \<and> map_sum id
     (\<lambda>sys. (map rowFacts (rowsOf (database sys) ''flaky''),
             map exec_success (handler_executions (database sys))))
     (thenEvent 1700000007000000000 helloEvent
       (thenEvent 1700000006000000000 helloEvent
         (thenEvent 1700000005000000000 helloEvent (Inr flakySystem))))
   = Inr ([(Some ''closed'', 1, 1, Some ''MCP connection not available'',
            Some 1700000007000000000, 1700000007000000000)], [0, 0, 0])"
  by code_simp

text \<open>
  C2. \<open>UpdateCircuitBreaker\<close> on a breaker-enabled handler whose two recorded errors
  reach its threshold: after a failure the stored state is \<^verbatim>\<open>closed\<close>, not \<^verbatim>\<open>open\<close>, and
  after a failure as after a success the execution count and the error count are 0, the
  last error and its time are gone, and the creation time is the time of the call.
\<close>

theorem breaker_update_rewrites_row:
  "map rowFacts (rowsOf twoErrorStore ''flaky'')
     = [(Some ''closed'', 2, 2, Some ''boom'', Some 1700000006000000000, 1700000000000000000)]
   \<and> map_sum id (\<lambda>db. map rowFacts (rowsOf db ''flaky''))
        (UpdateCircuitBreaker plainWorld 1700000007000000000 ''flaky'' False twoErrorStore)
     = Inr [(Some ''closed'', 0, 0, None, None, 1700000007000000000)]
   \<and> map_sum id (\<lambda>db. map rowFacts (rowsOf db ''flaky''))
        (UpdateCircuitBreaker plainWorld 1700000007000000000 ''flaky'' True twoErrorStore)
     = Inr [(Some ''closed'', 0, 0, None, None, 1700000007000000000)]"
  by code_simp

subsection \<open>Registration\<close>

lemma SaveHandler_cases:
  "SaveHandler w now h db = Inl DatabaseClosed \<and> db_closed db
   \<or> SaveHandler w now h db = Inl UnsupportedType \<and> \<not> db_closed db \<and> \<not> bindable h
   \<or> (\<exists>db'. SaveHandler w now h db = Inr db') \<and> \<not> db_closed db \<and> bindable h"
  unfolding SaveHandler_def Let_def bindable_def
  by (simp split: option.split)

lemma SaveHandler_succeeds_iff:
  "(\<exists>db'. SaveHandler w now h db = Inr db') \<longleftrightarrow> \<not> db_closed db \<and> bindable h"
  using SaveHandler_cases [of w now h db] by auto

lemma SaveHandler_fails:
  "SaveHandler w now h db = Inl err \<Longrightarrow> db_closed db \<or> \<not> bindable h"
  using SaveHandler_cases [of w now h db] by auto

lemma map_of_setDefault:
  "map_of (setDefault k v m) k' = (if k' = k \<and> map_of m k = None then Some v else map_of m k')"
  by (simp add: setDefault_def update_conv')

lemma bind_setDefault:
  assumes "bind (Some v) \<noteq> None"
  shows "(bind (map_of (setDefault k v m) k') \<noteq> None) = (bind (map_of m k') \<noteq> None)"
  using assms by (auto simp: map_of_setDefault)

lemma bindable_registrationDefaults: "bindable (registrationDefaults data) = bindable data"
  unfolding bindable_def registrationDefaults_def
  by (simp only: bind_setDefault bind.simps option.distinct not_False_eq_True)

lemma registrationDefaults_lookup:
  "map_of (registrationDefaults data) ''handler_id'' = map_of data ''handler_id''"
  "map_of (registrationDefaults data) ''enabled''
     = (if map_of data ''enabled'' = None then Some (GBool True) else map_of data ''enabled'')"
  "map_of (registrationDefaults data) ''priority''
     = (if map_of data ''priority'' = None then Some (GInt 0) else map_of data ''priority'')"
  "map_of (registrationDefaults data) ''timeout_seconds''
     = (if map_of data ''timeout_seconds'' = None then Some (GInt 30)
        else map_of data ''timeout_seconds'')"
  by (simp_all add: registrationDefaults_def map_of_setDefault)

lemma rowsOf_insertOrReplace:
  assumes "row_handler_id row = CText handlerID"
  shows "filter (\<lambda>r. row_handler_id r = CText handlerID) (insertOrReplace row table) = [row]"
proof -
  have "filter (\<lambda>r. row_handler_id r = CText handlerID)
          (filter (\<lambda>r. row_handler_id r \<noteq> CText handlerID) table) = []"
    by (induction table) auto
  then show ?thesis
    using assms by (simp add: insertOrReplace_def)
qed

lemma SaveHandler_row:
  assumes ok: "SaveHandler w now h db = Inr db'"
    and hid: "map_of h ''handler_id'' = Some (GStr handlerID)"
  shows "\<exists>row. rowsOf db' handlerID = [row]
           \<and> row_enabled row = (case asBool (map_of h ''enabled'') of
                                  Some e \<Rightarrow> if \<not> e then 0 else 1 | None \<Rightarrow> 1)
           \<and> (\<forall>c. bind (map_of h ''priority'') = Some c \<longrightarrow> row_priority row = integerAffinity w c)
           \<and> (\<forall>c. bind (map_of h ''timeout_seconds'') = Some c
                  \<longrightarrow> row_timeout_seconds row = integerAffinity w c)"
proof -
  from ok hid obtain description priority maxPerMin maxPerHour maxPerSenderHour cooldown timeout
    where db': "db' = db\<lparr>event_handlers :=
               insertOrReplace
                 (savedRow w now h (CText handlerID) description priority maxPerMin maxPerHour
                    maxPerSenderHour cooldown timeout)
                 (event_handlers db)\<rparr>"
      and p: "bind (map_of h ''priority'') = Some priority"
      and t: "bind (map_of h ''timeout_seconds'') = Some timeout"
    unfolding SaveHandler_def
    by (auto split: if_splits option.splits)
  let ?row = "savedRow w now h (CText handlerID) description priority maxPerMin maxPerHour
                    maxPerSenderHour cooldown timeout"
  have id: "row_handler_id ?row = CText handlerID"
    by (simp add: savedRow_def Let_def textAffinity_def)
  have "rowsOf db' handlerID = [?row]"
    unfolding rowsOf_def db' using rowsOf_insertOrReplace [OF id] by simp
  moreover have "row_enabled ?row = (case asBool (map_of h ''enabled'') of
                                  Some e \<Rightarrow> if \<not> e then 0 else 1 | None \<Rightarrow> 1)"
    by (simp add: savedRow_def Let_def)
  moreover have "row_priority ?row = integerAffinity w priority"
    "row_timeout_seconds ?row = integerAffinity w timeout"
    by (simp_all add: savedRow_def Let_def)
  ultimately show ?thesis
    using p t by simp
qed

lemma rejects_iff:
  "spec_registration_rejects inputData \<longleftrightarrow>
     (case inputData of
        None \<Rightarrow> True
      | Some data \<Rightarrow>
          (case asString (map_of data ''handler_id'') of None \<Rightarrow> True | Some hid \<Rightarrow> hid = [])
          \<or> map_of data ''event_filter'' = None \<or> map_of data ''action'' = None)"
  unfolding spec_registration_rejects_def
  by (auto split: option.splits gval.splits elim: asString.elims)

text \<open>
  C9, as the code has it. A registration request is rejected without a write to the store
  when \<^verbatim>\<open>handler_id\<close> is absent, empty or not a string, or \<^verbatim>\<open>event_filter\<close> is absent, or
  \<^verbatim>\<open>action\<close> is absent. A request that passes this validation succeeds exactly when the
  store accepts the write (the database is open and every scalar column value can be
  bound), and a request that fails leaves the store as it was. After a successful
  registration the store holds one row for the handler, in which an absent \<^verbatim>\<open>enabled\<close> is
  true, an absent \<^verbatim>\<open>priority\<close> is 0 and an absent \<^verbatim>\<open>timeout_seconds\<close> is 30.
\<close>

theorem register_validation_and_defaults:
  "(spec_registration_rejects inputData \<longrightarrow>
      \<not> Success (fst (handleRegisterHandler w now inputData db))
      \<and> snd (handleRegisterHandler w now inputData db) = db)
   \<and> (\<forall>data. inputData = Some data \<and> \<not> spec_registration_rejects inputData \<longrightarrow>
        (Success (fst (handleRegisterHandler w now inputData db))
           \<longleftrightarrow> \<not> db_closed db \<and> bindable data)
      \<and> (\<not> Success (fst (handleRegisterHandler w now inputData db))
           \<longrightarrow> snd (handleRegisterHandler w now inputData db) = db)
      \<and> (Success (fst (handleRegisterHandler w now inputData db)) \<longrightarrow>
           (\<exists>row. rowsOf (snd (handleRegisterHandler w now inputData db)) (idOf data) = [row]
              \<and> (map_of data ''enabled'' = None \<longrightarrow> row_enabled row = 1)
              \<and> (map_of data ''priority'' = None \<longrightarrow> row_priority row = CInt 0)
              \<and> (map_of data ''timeout_seconds'' = None
                    \<longrightarrow> row_timeout_seconds row = CInt 30))))"
proof (intro conjI impI allI)
  assume "spec_registration_rejects inputData"
  then show "\<not> Success (fst (handleRegisterHandler w now inputData db))"
    and "snd (handleRegisterHandler w now inputData db) = db"
    by (auto simp: rejects_iff handleRegisterHandler_def failed_def split: option.splits)
next
  fix data
  assume a: "inputData = Some data \<and> \<not> spec_registration_rejects inputData"
  then obtain handlerID fv av where hid: "map_of data ''handler_id'' = Some (GStr handlerID)"
    and ne: "handlerID \<noteq> []"
    and ef: "map_of data ''event_filter'' = Some fv" and ac: "map_of data ''action'' = Some av"
    by (auto simp: spec_registration_rejects_def split: option.splits gval.splits)
  let ?save = "SaveHandler w now (registrationDefaults data) db"
  have run: "handleRegisterHandler w now inputData db =
      (case ?save of
         Inl err \<Rightarrow> (failed (''Failed to save handler: '' @ ErrorString w err), db)
       | Inr db1 \<Rightarrow>
           (\<lparr>Success = True,
             Message = ''Handler '' @ [CHR 0x27] @ handlerID @ [CHR 0x27]
                         @ '' registered successfully'',
             Data = Some [(''handler_id'', GStr handlerID)],
             Error = []\<rparr>, db1))"
    using a hid ne ef ac by (simp add: handleRegisterHandler_def)
  have succ: "Success (fst (handleRegisterHandler w now inputData db)) \<longleftrightarrow> (\<exists>db1. ?save = Inr db1)"
    unfolding run by (cases ?save) (simp_all add: failed_def)
  show "Success (fst (handleRegisterHandler w now inputData db))
           \<longleftrightarrow> \<not> db_closed db \<and> bindable data"
    unfolding succ SaveHandler_succeeds_iff bindable_registrationDefaults ..
  show "snd (handleRegisterHandler w now inputData db) = db"
    if "\<not> Success (fst (handleRegisterHandler w now inputData db))"
    using that unfolding run by (cases ?save) (simp_all add: failed_def)
  show "\<exists>row. rowsOf (snd (handleRegisterHandler w now inputData db)) (idOf data) = [row]
              \<and> (map_of data ''enabled'' = None \<longrightarrow> row_enabled row = 1)
              \<and> (map_of data ''priority'' = None \<longrightarrow> row_priority row = CInt 0)
              \<and> (map_of data ''timeout_seconds'' = None
                    \<longrightarrow> row_timeout_seconds row = CInt 30)"
    if s: "Success (fst (handleRegisterHandler w now inputData db))"
  proof -
    from s succ obtain db1 where db1: "?save = Inr db1"
      by blast
    have snd: "snd (handleRegisterHandler w now inputData db) = db1"
      unfolding run db1 by simp
    have hid': "map_of (registrationDefaults data) ''handler_id'' = Some (GStr handlerID)"
      by (simp add: registrationDefaults_lookup hid)
    from SaveHandler_row [OF db1 hid'] obtain row where
      r: "rowsOf db1 handlerID = [row]"
      and e: "row_enabled row = (case asBool (map_of (registrationDefaults data) ''enabled'') of
                                  Some e \<Rightarrow> if \<not> e then 0 else 1 | None \<Rightarrow> 1)"
      and p: "\<And>c. bind (map_of (registrationDefaults data) ''priority'') = Some c
                  \<Longrightarrow> row_priority row = integerAffinity w c"
      and t: "\<And>c. bind (map_of (registrationDefaults data) ''timeout_seconds'') = Some c
                  \<Longrightarrow> row_timeout_seconds row = integerAffinity w c"
      by blast
    have "map_of data ''enabled'' = None \<Longrightarrow> row_enabled row = 1"
      using e by (simp add: registrationDefaults_lookup)
    moreover have "map_of data ''priority'' = None \<Longrightarrow> row_priority row = CInt 0"
      using p [of "CInt 0"] by (simp add: registrationDefaults_lookup integerAffinity_def)
    moreover have "map_of data ''timeout_seconds'' = None \<Longrightarrow> row_timeout_seconds row = CInt 30"
      using t [of "CInt 30"] by (simp add: registrationDefaults_lookup integerAffinity_def)
    ultimately show ?thesis
      using r snd hid by (auto simp: idOf_def stringOrZero_def)
  qed
qed

text \<open>A request with an empty \<^verbatim>\<open>handler_id\<close> is rejected and writes nothing; the request of
  the end-to-end scenario is saved with the three defaults.\<close>

theorem register_validation_and_defaults_witness:
  "spec_registration_rejects (Some [(''handler_id'', GStr []), (''action'', GMap helloAction)])
   \<and> \<not> Success (fst (handleRegisterHandler plainWorld 1700000000000000000
          (Some [(''handler_id'', GStr []), (''action'', GMap helloAction)]) emptyDatabase))
   \<and> snd (handleRegisterHandler plainWorld 1700000000000000000
          (Some [(''handler_id'', GStr []), (''action'', GMap helloAction)]) emptyDatabase)
       = emptyDatabase
   \<and> \<not> spec_registration_rejects (Some helloRequest)
   \<and> \<not> db_closed emptyDatabase \<and> bindable helloRequest
   \<and> Success (fst (handleRegisterHandler plainWorld 1700000000000000000
          (Some helloRequest) emptyDatabase))
   \<and> (\<exists>row. rowsOf (snd (handleRegisterHandler plainWorld 1700000000000000000
                  (Some helloRequest) emptyDatabase)) ''greeter'' = [row]
          \<and> row_enabled row = 1 \<and> row_priority row = CInt 0
          \<and> row_timeout_seconds row = CInt 30)"
proof -
  let ?bad = "Some [(''handler_id'', GStr []), (''action'', GMap helloAction)]"
  have bad: "spec_registration_rejects ?bad"
    by (simp add: spec_registration_rejects_def)
  have good: "\<not> spec_registration_rejects (Some helloRequest)"
    by (simp add: spec_registration_rejects_def helloRequest_def)
  have store: "\<not> db_closed emptyDatabase"
    by (simp add: emptyDatabase_def)
  have binds: "bindable helloRequest"
    by (simp add: bindable_def helloRequest_def)
  have absent: "map_of helloRequest ''enabled'' = None" "map_of helloRequest ''priority'' = None"
    "map_of helloRequest ''timeout_seconds'' = None"
    by (simp_all add: helloRequest_def)
  have id: "idOf helloRequest = ''greeter''"
    by (simp add: idOf_def helloRequest_def stringOrZero_def)
  note rejected = register_validation_and_defaults
                    [of ?bad plainWorld 1700000000000000000 emptyDatabase]
  note accepted = register_validation_and_defaults
                    [of "Some helloRequest" plainWorld 1700000000000000000 emptyDatabase]
  have r1: "\<not> Success (fst (handleRegisterHandler plainWorld 1700000000000000000 ?bad emptyDatabase))"
    and r2: "snd (handleRegisterHandler plainWorld 1700000000000000000 ?bad emptyDatabase)
               = emptyDatabase"
    using rejected bad by blast+
  have a1: "Success (fst (handleRegisterHandler plainWorld 1700000000000000000
          (Some helloRequest) emptyDatabase))"
    using accepted good store binds by blast
  have a2: "\<exists>row. rowsOf (snd (handleRegisterHandler plainWorld 1700000000000000000
                  (Some helloRequest) emptyDatabase)) ''greeter'' = [row]
          \<and> row_enabled row = 1 \<and> row_priority row = CInt 0
          \<and> row_timeout_seconds row = CInt 30"
    using accepted good a1 absent id by force
  show ?thesis
    using bad r1 r2 good store binds a1 a2 by blast
qed

text \<open>
  C9 as stated fails: a request with a \<^verbatim>\<open>handler_id\<close>, an \<^verbatim>\<open>event_filter\<close> and an \<^verbatim>\<open>action\<close>
  whose \<^verbatim>\<open>priority\<close> is a list is not rejected by the validation and still returns an
  unsuccessful result, because the store refuses the write.
\<close>

theorem register_fails_on_valid_request:
  "\<not> (\<not> Success (fst (handleRegisterHandler plainWorld 1700000000000000000
            (Some listPriorityRequest) emptyDatabase))
        \<longleftrightarrow> spec_registration_rejects (Some listPriorityRequest))"
  by code_simp

subsection \<open>Priority ordering\<close>

text \<open>The two loops of the sort are unfolded by hand.\<close>

declare sortInner.simps [simp del] sortOuter.simps [simp del]

lemma sorted_wrt_subseq:
  assumes "subseq xs ys" "sorted_wrt P ys"
  shows "sorted_wrt P xs"
  using assms
proof (induction rule: list_emb.induct)
  case (list_emb_Nil ys)
  show ?case by simp
next
  case (list_emb_Cons xs ys y)
  then show ?case by simp
next
  case (list_emb_Cons2 x y xs ys)
  have "set xs \<subseteq> set ys"
    using list_emb_Cons2.hyps(2) by (auto dest: list_emb_set)
  then show ?case
    using list_emb_Cons2 by auto
qed

lemma distinct_map_insort_key:
  "distinct (map g (insort_key k x ys)) \<longleftrightarrow> g x \<notin> g ` set ys \<and> distinct (map g ys)"
  by (induction ys) (auto simp: set_insort_key)

lemma distinct_map_sort_key:
  "distinct (map g (sort_key k xs)) \<longleftrightarrow> distinct (map g xs)"
  by (induction xs) (auto simp: distinct_map_insort_key)

lemma filter_key_unique:
  assumes "distinct (map f xs)" "x \<in> set xs"
  shows "filter (\<lambda>y. f y = f x) xs = [x]"
  using assms
proof (induction xs)
  case Nil
  then show ?case by simp
next
  case (Cons a xs)
  show ?case
  proof (cases "a = x")
    case True
    have "f x \<notin> f ` set xs"
      using Cons.prems(1) True by simp
    then have "\<forall>y\<in>set xs. f y \<noteq> f x"
      by (metis imageI)
    then have "filter (\<lambda>y. f y = f x) xs = []"
      by (simp add: filter_empty_conv)
    with True show ?thesis by simp
  next
    case False
    then have "x \<in> set xs" using Cons.prems(2) by simp
    moreover have "f a \<noteq> f x"
      using Cons.prems(1) \<open>x \<in> set xs\<close> by auto
    ultimately show ?thesis
      using Cons by simp
  qed
qed

text \<open>The bubble sort leaves a list alone in which no handler is followed by one of higher priority.\<close>

lemma sortInner_sorted:
  assumes "\<forall>k. k + 1 < length hs \<longrightarrow> \<not> priorityOf (hs ! k) < priorityOf (hs ! (k + 1))"
    and "bound < length hs"
  shows "sortInner hs j bound = hs"
  using assms
proof (induction hs j bound rule: sortInner.induct)
  case (1 hs j bound)
  show ?case
  proof (cases "j < bound")
    case True
    then have "j + 1 < length hs"
      using "1.prems"(2) by simp
    then have ns: "\<not> intOrZero (map_of (hs ! j) ''priority'')
                    < intOrZero (map_of (hs ! (j + 1)) ''priority'')"
      using "1.prems"(1) by (simp add: priorityOf_def)
    have "sortInner hs (j + 1) bound = hs"
      using "1.IH" [OF True refl refl] ns "1.prems" by simp
    then show ?thesis
      using True ns by (subst sortInner.simps) (simp add: Let_def)
  next
    case False
    then show ?thesis
      by (subst sortInner.simps) simp
  qed
qed

lemma sortOuter_sorted:
  assumes "\<forall>k. k + 1 < length hs \<longrightarrow> \<not> priorityOf (hs ! k) < priorityOf (hs ! (k + 1))"
    and "n \<le> length hs"
  shows "sortOuter hs i n = hs"
  using assms
proof (induction hs i n rule: sortOuter.induct)
  case (1 hs i n)
  show ?case
  proof (cases "i + 1 < n")
    case True
    then have "n - i - 1 < length hs"
      using "1.prems"(2) by simp
    then have inner: "sortInner hs 0 (n - i - 1) = hs"
      using sortInner_sorted "1.prems"(1) by blast
    have "sortOuter hs (i + 1) n = hs"
      using "1.IH" [OF True] inner "1.prems" by simp
    then show ?thesis
      using True inner by (subst sortOuter.simps) simp
  next
    case False
    then show ?thesis
      by (subst sortOuter.simps) simp
  qed
qed

lemma sortHandlersByPriority_sorted:
  assumes "sorted_wrt (\<lambda>a b. \<not> priorityOf a < priorityOf b) hs"
  shows "sortHandlersByPriority hs = hs"
proof -
  have "\<forall>k. k + 1 < length hs \<longrightarrow> \<not> priorityOf (hs ! k) < priorityOf (hs ! (k + 1))"
    using assms by (simp add: sorted_wrt_iff_nth_less)
  then show ?thesis
    unfolding sortHandlersByPriority_def by (rule sortOuter_sorted) simp
qed

lemma map_of_setIfValid:
  "map_of (setIfValid k v m) k'
     = (if k' = k then (case v of Some x \<Rightarrow> Some x | None \<Rightarrow> map_of m k') else map_of m k')"
  by (simp add: setIfValid_def update_conv' split: option.split)

lemma handlerOfRow_key:
  "map_of (handlerOfRow w hid row p a b c d e) ''handler_id'' = Some (GStr hid)"
  "map_of (handlerOfRow w hid row p a b c d e) ''priority'' = Some (GInt p)"
  by (simp_all add: handlerOfRow_def Let_def map_of_setIfValid)

lemma orderKey_handlerOfRow: "orderKey (handlerOfRow w hid row p a b c d e) = (- p, hid)"
  by (simp add: orderKey_def handlerOfRow_key intOrZero_def stringOrZero_def)

lemma scanSummary_key:
  assumes "scanSummary w row = Some h" "row_handler_id row = CText s"
  shows "map_of h ''handler_id'' = Some (GStr s)"
    and "\<exists>p. scanInt (row_priority row) = Some p \<and> map_of h ''priority'' = Some (GInt p)"
  using assms
  by (auto simp: scanSummary_def map_of_setIfValid split: option.splits)

lemma primaryKey_text:
  "primaryKey db \<Longrightarrow> r \<in> set (event_handlers db) \<Longrightarrow> \<exists>s. row_handler_id r = CText s"
proof -
  assume "primaryKey db" "r \<in> set (event_handlers db)"
  then have "case row_handler_id r of CText s \<Rightarrow> True | _ \<Rightarrow> False"
    by (simp add: primaryKey_def list_all_iff)
  then show ?thesis
    by (cases "row_handler_id r") simp_all
qed

lemma primaryKey_distinct: "primaryKey db \<Longrightarrow> distinct (map row_handler_id (event_handlers db))"
  by (simp add: primaryKey_def)

lemma GetHandler_key:
  assumes pk: "primaryKey db"
    and row: "row \<in> set (event_handlers db)" "row_handler_id row = CText hid"
    and get: "GetHandler w hid db = Inr full"
  shows "\<exists>p. scanInt (row_priority row) = Some p \<and> orderKey full = (- p, hid)
            \<and> map_of full ''handler_id'' = Some (GStr hid)"
proof -
  have "filter (\<lambda>r. row_handler_id r = row_handler_id row) (event_handlers db) = [row]"
    using primaryKey_distinct [OF pk] row(1) by (rule filter_key_unique)
  then have one: "filter (\<lambda>r. row_handler_id r = CText hid) (event_handlers db) = [row]"
    using row(2) by simp
  from get show ?thesis
    unfolding GetHandler_def one
    by (auto simp: orderKey_handlerOfRow handlerOfRow_key split: if_splits option.splits)
qed

lemma ListHandlers_listed:
  assumes pk: "primaryKey db"
    and ls: "ListHandlers w enabledOnly db = Inr listed"
  shows "sorted (map orderKey listed)"
    and "distinct (map idOf listed)"
    and "\<forall>h\<in>set listed. describesRow db h"
proof -
  define selected where "selected =
    (if enabledOnly then filter (\<lambda>r. row_enabled r = 1) (event_handlers db)
     else event_handlers db)"
  have sub: "set selected \<subseteq> set (event_handlers db)"
    by (auto simp: selected_def)
  have dist: "distinct (map row_handler_id selected)"
    using primaryKey_distinct [OF pk] by (simp add: selected_def distinct_map_filter)
  from ls have all: "None \<notin> set (map (scanSummary w) selected)"
    and listed: "listed = sort_key orderKey (map the (map (scanSummary w) selected))"
    unfolding ListHandlers_def Let_def selected_def [symmetric]
    by (auto split: if_splits)
  have some: "\<exists>h. scanSummary w r = Some h" if "r \<in> set selected" for r
    using all that by (cases "scanSummary w r") force+
  have istext: "\<exists>s. row_handler_id r = CText s" if "r \<in> set selected" for r
    using primaryKey_text [OF pk] sub that by blast
  have id: "idOf (the (scanSummary w r)) = (case row_handler_id r of CText s \<Rightarrow> s | _ \<Rightarrow> [])"
    if rsel: "r \<in> set selected" for r
  proof -
    obtain h s where h: "scanSummary w r = Some h" and s: "row_handler_id r = CText s"
      using some [OF rsel] istext [OF rsel] by blast
    show ?thesis
      using scanSummary_key(1) [OF h s] h s by (simp add: idOf_def stringOrZero_def)
  qed
  show "sorted (map orderKey listed)"
    unfolding listed by (rule sorted_sort_key)
  have ids: "map idOf (map the (map (scanSummary w) selected))
          = map (\<lambda>r. case row_handler_id r of CText s \<Rightarrow> s | _ \<Rightarrow> []) selected"
    using id by simp
  have "distinct (map (\<lambda>r. case row_handler_id r of CText s \<Rightarrow> s | _ \<Rightarrow> []) selected)"
  proof -
    have "inj_on (\<lambda>r. case row_handler_id r of CText s \<Rightarrow> s | _ \<Rightarrow> []) (set selected)"
    proof (rule inj_onI)
      fix a b
      assume a: "a \<in> set selected" and b: "b \<in> set selected"
        and eq: "(case row_handler_id a of CText s \<Rightarrow> s | _ \<Rightarrow> [])
                  = (case row_handler_id b of CText s \<Rightarrow> s | _ \<Rightarrow> [])"
      obtain sa sb where "row_handler_id a = CText sa" "row_handler_id b = CText sb"
        using istext [OF a] istext [OF b] by blast
      with eq have "row_handler_id a = row_handler_id b"
        by simp
      then show "a = b"
        using dist a b by (meson distinct_map inj_onD)
    qed
    moreover have "distinct selected"
      using dist by (simp add: distinct_map)
    ultimately show ?thesis
      by (simp add: distinct_map)
  qed
  then have "distinct (map idOf (map the (map (scanSummary w) selected)))"
    by (simp only: ids)
  then show "distinct (map idOf listed)"
    unfolding listed by (simp only: distinct_map_sort_key)
  show "\<forall>h\<in>set listed. describesRow db h"
  proof
    fix h
    assume "h \<in> set listed"
    then obtain r where r: "r \<in> set selected" and h: "h = the (scanSummary w r)"
      unfolding listed by auto
    obtain s where s: "row_handler_id r = CText s"
      using istext [OF r] by blast
    have hs: "scanSummary w r = Some h"
      using some [OF r] h by auto
    obtain p where p: "scanInt (row_priority r) = Some p" "map_of h ''priority'' = Some (GInt p)"
      using scanSummary_key(2) [OF hs s] by blast
    have "orderKey h = (- p, s)"
      using p(2) scanSummary_key(1) [OF hs s]
      by (simp add: orderKey_def intOrZero_def stringOrZero_def)
    then show "describesRow db h"
      unfolding describesRow_def
      using r sub s p(1) scanSummary_key(1) [OF hs s] by blast
  qed
qed

lemma loadFull_keys:
  assumes pk: "primaryKey db"
    and good: "\<forall>h\<in>set listed. describesRow db h"
  shows "\<exists>fulls. loadFull w db listed = Inr fulls
           \<and> subseq (map orderKey fulls) (map orderKey listed)
           \<and> (\<forall>f\<in>set fulls. \<exists>s. map_of f ''handler_id'' = Some (GStr s))"
  using good
proof (induction listed)
  case Nil
  show ?case by simp
next
  case (Cons h rest)
  from Cons.prems obtain row s p where row: "row \<in> set (event_handlers db)"
      "row_handler_id row = CText s" "scanInt (row_priority row) = Some p"
    and key: "orderKey h = (- p, s)" and hid: "map_of h ''handler_id'' = Some (GStr s)"
    unfolding describesRow_def by auto
  from Cons obtain fulls where fulls: "loadFull w db rest = Inr fulls"
      "subseq (map orderKey fulls) (map orderKey rest)"
      "\<forall>f\<in>set fulls. \<exists>s. map_of f ''handler_id'' = Some (GStr s)"
    by auto
  show ?case
  proof (cases "GetHandler w s db")
    case (Inl err)
    then show ?thesis
      using hid fulls by (auto intro: list_emb_Cons)
  next
    case (Inr full)
    from GetHandler_key [OF pk row(1,2) Inr] row(3)
    have "orderKey full = (- p, s)" "map_of full ''handler_id'' = Some (GStr s)"
      by auto
    then show ?thesis
      using hid fulls Inr key by simp
  qed
qed

lemma checkCooldown_total:
  assumes "map_of handler ''handler_id'' = Some (GStr handlerID)"
  shows "\<exists>cooled. checkCooldown w handler now em = Inr cooled"
  using assms by (auto simp: checkCooldown_def split: option.split)

lemma matchLoop_subseq:
  assumes "\<forall>h\<in>set hs. \<exists>s. map_of h ''handler_id'' = Some (GStr s)"
  shows "\<exists>matches em'. matchLoop w event now hs em = Inr (matches, em') \<and> subseq matches hs"
  using assms
proof (induction hs arbitrary: em)
  case Nil
  show ?case by simp
next
  case (Cons handler rest)
  then obtain s where s: "map_of handler ''handler_id'' = Some (GStr s)"
    by auto
  have rest: "\<exists>matches em'. matchLoop w event now rest em0 = Inr (matches, em')
                \<and> subseq matches rest" for em0
    using Cons by simp
  obtain allowed em1 where rl: "checkRateLimits handler event now em = Inr (allowed, em1)"
    using checkRateLimits_total [OF s, of event now em] by blast
  obtain cooled where cd: "checkCooldown w handler now em1 = Inr cooled"
    using checkCooldown_total [OF s] by blast
  obtain m0 e0 where r0: "matchLoop w event now rest em = Inr (m0, e0)" "subseq m0 rest"
    using rest by blast
  obtain m1 e1 where r1: "matchLoop w event now rest em1 = Inr (m1, e1)" "subseq m1 rest"
    using rest by blast
  show ?case
    using rl cd r0 r1 by (auto intro: list_emb_Cons)
qed

lemma precedes_orderKey: "precedes a b \<longleftrightarrow> orderKey a < orderKey b"
  by (auto simp: precedes_def orderKey_def priorityOf_def idOf_def prod_less_eq)

lemma precedes_eq: "precedes = (\<lambda>a b. orderKey a < orderKey b)"
  by (intro ext) (rule precedes_orderKey)

text \<open>The primary key holds in the empty store and is kept by the writes of the program.\<close>

lemma primaryKey_emptyDatabase: "primaryKey emptyDatabase"
  by (simp add: primaryKey_def emptyDatabase_def)

lemma primaryKey_SaveHandler:
  assumes pk: "primaryKey db"
    and hid: "map_of h ''handler_id'' = Some (GStr s)"
    and ok: "SaveHandler w now h db = Inr db'"
  shows "primaryKey db'"
proof -
  from ok hid obtain description priority maxPerMin maxPerHour maxPerSenderHour cooldown timeout
    where "db' = db\<lparr>event_handlers :=
               insertOrReplace
                 (savedRow w now h (CText s) description priority maxPerMin maxPerHour
                    maxPerSenderHour cooldown timeout)
                 (event_handlers db)\<rparr>"
    unfolding SaveHandler_def
    by (auto split: if_splits option.splits)
  moreover have "row_handler_id (savedRow w now h (CText s) description priority maxPerMin
                    maxPerHour maxPerSenderHour cooldown timeout) = CText s"
    by (simp add: savedRow_def Let_def textAffinity_def)
  ultimately obtain row where row: "row_handler_id row = CText s"
    and db': "event_handlers db' = insertOrReplace row (event_handlers db)"
    by simp
  let ?kept = "filter (\<lambda>r. row_handler_id r \<noteq> CText s) (event_handlers db)"
  have rows: "event_handlers db' = ?kept @ [row]"
    using row db' by (simp add: insertOrReplace_def)
  have "list_all (\<lambda>r. case row_handler_id r of CText s \<Rightarrow> True | _ \<Rightarrow> False) ?kept"
    using pk by (simp add: primaryKey_def list_all_iff)
  moreover have "distinct (map row_handler_id ?kept)"
    using pk by (simp add: primaryKey_def distinct_map_filter)
  moreover have "CText s \<notin> row_handler_id ` set ?kept"
    by auto
  ultimately show ?thesis
    using row by (simp add: primaryKey_def rows)
qed

lemma primaryKey_UpdateHandlerStats:
  assumes "primaryKey db" "UpdateHandlerStats now handlerID success errorMsg db = Inr db'"
  shows "primaryKey db'"
proof -
  have "map row_handler_id (event_handlers db') = map row_handler_id (event_handlers db)"
    using assms(2) unfolding UpdateHandlerStats_def
    by (cases success) (auto split: if_splits)
  moreover have "list_all (\<lambda>r. case row_handler_id r of CText s \<Rightarrow> True | _ \<Rightarrow> False)
                   (event_handlers db')
                 = list_all (\<lambda>r. case row_handler_id r of CText s \<Rightarrow> True | _ \<Rightarrow> False)
                     (event_handlers db)"
    using assms(2) unfolding UpdateHandlerStats_def
    by (cases success) (auto simp: list_all_iff split: if_splits)
  ultimately show ?thesis
    using assms(1) by (simp add: primaryKey_def)
qed

text \<open>
  The bubble sort of the source, step by step: it permutes the list, keeps the relative
  order of the handlers of each priority, and leaves the list in descending order of
  priority. So it is the stable sort by descending priority.
\<close>

lemma swap_append:
  "(xs @ a # b # ys)[length xs := b, Suc (length xs) := a] = xs @ b # a # ys"
  by (induction xs) simp_all

lemma swap_adjacent:
  assumes "j + 1 < length hs"
  shows "hs = take j hs @ hs ! j # hs ! (j + 1) # drop (j + 2) hs"
    and "hs[j := hs ! (j + 1), j + 1 := hs ! j]
           = take j hs @ hs ! (j + 1) # hs ! j # drop (j + 2) hs"
proof -
  have a: "hs = take j hs @ hs ! j # drop (j + 1) hs"
    using assms by (simp add: id_take_nth_drop)
  have b: "drop (j + 1) hs = hs ! (j + 1) # drop (j + 2) hs"
    using assms by (simp add: Cons_nth_drop_Suc)
  show c: "hs = take j hs @ hs ! j # hs ! (j + 1) # drop (j + 2) hs"
    using a b by simp
  have len: "length (take j hs) = j"
    using assms by simp
  have "hs[j := hs ! (j + 1), j + 1 := hs ! j]
          = (take j hs @ hs ! j # hs ! (j + 1) # drop (j + 2) hs)
              [j := hs ! (j + 1), j + 1 := hs ! j]"
    by (rule arg_cong [where f = "\<lambda>l. l[j := hs ! (j + 1), j + 1 := hs ! j]", OF c])
  also have "\<dots> = (take j hs @ hs ! j # hs ! (j + 1) # drop (j + 2) hs)
              [length (take j hs) := hs ! (j + 1), Suc (length (take j hs)) := hs ! j]"
    by (simp only: len Suc_eq_plus1)
  also have "\<dots> = take j hs @ hs ! (j + 1) # hs ! j # drop (j + 2) hs"
    by (rule swap_append)
  finally show "hs[j := hs ! (j + 1), j + 1 := hs ! j]
           = take j hs @ hs ! (j + 1) # hs ! j # drop (j + 2) hs" .
qed

lemma sortInner_step:
  "sortInner hs j bound = (if j < bound then sortInner (sortStep hs j) (j + 1) bound else hs)"
  by (subst sortInner.simps) (simp add: sortStep_def priorityOf_def Let_def)

lemma sortStep_length [simp]: "length (sortStep hs j) = length hs"
  by (simp add: sortStep_def)

lemma sortStep_mset: "j + 1 < length hs \<Longrightarrow> mset (sortStep hs j) = mset hs"
  by (simp add: sortStep_def mset_swap)

lemma sortStep_stable:
  assumes "j + 1 < length hs"
  shows "filter (\<lambda>x. priorityOf x = c) (sortStep hs j) = filter (\<lambda>x. priorityOf x = c) hs"
proof (cases "priorityOf (hs ! j) < priorityOf (hs ! (j + 1))")
  case True
  have "filter (\<lambda>x. priorityOf x = c) (sortStep hs j)
          = filter (\<lambda>x. priorityOf x = c)
              (take j hs @ hs ! (j + 1) # hs ! j # drop (j + 2) hs)"
    by (simp only: sortStep_def True if_True swap_adjacent(2) [OF assms])
  also have "\<dots> = filter (\<lambda>x. priorityOf x = c)
          (take j hs @ hs ! j # hs ! (j + 1) # drop (j + 2) hs)"
    using True by auto
  also have "\<dots> = filter (\<lambda>x. priorityOf x = c) hs"
    by (simp only: swap_adjacent(1) [OF assms, symmetric])
  finally show ?thesis .
next
  case False
  then show ?thesis by (simp add: sortStep_def)
qed

lemma sortStep_nth:
  assumes "j + 1 < length hs"
  shows "sortStep hs j ! k =
           (if priorityOf (hs ! j) < priorityOf (hs ! (j + 1))
            then (if k = j then hs ! (j + 1) else if k = j + 1 then hs ! j else hs ! k)
            else hs ! k)"
  using assms by (auto simp: sortStep_def nth_list_update)

lemma sortInner_length: "bound < length hs \<Longrightarrow> length (sortInner hs j bound) = length hs"
proof (induction hs j bound rule: sortInner.induct)
  case (1 hs j bound)
  show ?case
  proof (cases "j < bound")
    case True
    have "length (sortInner (sortStep hs j) (j + 1) bound) = length (sortStep hs j)"
      using "1.IH" [OF True refl refl] "1.prems"
      by (simp add: sortStep_def priorityOf_def)
    then show ?thesis
      using True by (subst sortInner_step) simp
  next
    case False
    then show ?thesis by (subst sortInner_step) simp
  qed
qed

lemma sortInner_keeps:
  assumes "bound < length hs"
  shows "mset (sortInner hs j bound) = mset hs
       \<and> (\<forall>c. filter (\<lambda>x. priorityOf x = c) (sortInner hs j bound)
                 = filter (\<lambda>x. priorityOf x = c) hs)"
  using assms
proof (induction hs j bound rule: sortInner.induct)
  case (1 hs j bound)
  show ?case
  proof (cases "j < bound")
    case True
    then have j: "j + 1 < length hs"
      using "1.prems" by simp
    have "mset (sortInner (sortStep hs j) (j + 1) bound) = mset (sortStep hs j)
       \<and> (\<forall>c. filter (\<lambda>x. priorityOf x = c) (sortInner (sortStep hs j) (j + 1) bound)
                 = filter (\<lambda>x. priorityOf x = c) (sortStep hs j))"
      using "1.IH" [OF True refl refl] "1.prems"
      by (simp add: sortStep_def priorityOf_def)
    then show ?thesis
      using True sortStep_mset [OF j] sortStep_stable [OF j]
      by (subst sortInner_step, subst sortInner_step) simp
  next
    case False
    then show ?thesis by (subst sortInner_step, subst sortInner_step) simp
  qed
qed

text \<open>
  The inner loop moves a handler of least priority among the first \<open>bound + 1\<close> to position
  \<open>bound\<close>, takes the handlers of those positions from those positions, and leaves the
  later positions alone.
\<close>

lemma sortInner_bubbles:
  assumes "bound < length hs" "j \<le> bound"
    and "\<forall>k<j. priorityOf (hs ! j) \<le> priorityOf (hs ! k)"
  shows "(\<forall>k<bound. priorityOf (sortInner hs j bound ! bound)
                        \<le> priorityOf (sortInner hs j bound ! k))
       \<and> (\<forall>k. bound < k \<longrightarrow> k < length hs \<longrightarrow> sortInner hs j bound ! k = hs ! k)
       \<and> (\<forall>k\<le>bound. \<exists>k'\<le>bound. sortInner hs j bound ! k = hs ! k')"
  using assms
proof (induction hs j bound rule: sortInner.induct)
  case (1 hs j bound)
  show ?case
  proof (cases "j < bound")
    case True
    then have j: "j + 1 < length hs"
      using "1.prems" by simp
    let ?hs = "sortStep hs j"
    have pre: "\<forall>k<j + 1. priorityOf (?hs ! (j + 1)) \<le> priorityOf (?hs ! k)"
    proof (intro allI impI)
      fix k assume "k < j + 1"
      then consider "k < j" | "k = j" by linarith
      then show "priorityOf (?hs ! (j + 1)) \<le> priorityOf (?hs ! k)"
        using "1.prems"(3) by cases (auto simp: sortStep_nth [OF j])
    qed
    have ih: "(\<forall>k<bound. priorityOf (sortInner ?hs (j + 1) bound ! bound)
                        \<le> priorityOf (sortInner ?hs (j + 1) bound ! k))
       \<and> (\<forall>k. bound < k \<longrightarrow> k < length ?hs \<longrightarrow> sortInner ?hs (j + 1) bound ! k = ?hs ! k)
       \<and> (\<forall>k\<le>bound. \<exists>k'\<le>bound. sortInner ?hs (j + 1) bound ! k = ?hs ! k')"
      using "1.IH" [OF True refl refl] "1.prems"(1) True pre
      by (simp add: sortStep_def priorityOf_def)
    have unfold: "sortInner hs j bound = sortInner ?hs (j + 1) bound"
      using True by (subst sortInner_step) simp
    have later: "\<forall>k. bound < k \<longrightarrow> k < length hs \<longrightarrow> ?hs ! k = hs ! k"
      using True by (auto simp: sortStep_nth [OF j])
    have from_prefix: "\<forall>k'\<le>bound. \<exists>k''\<le>bound. ?hs ! k' = hs ! k''"
    proof (intro allI impI)
      fix k' assume k': "k' \<le> bound"
      consider "k' = j" | "k' = j + 1" | "k' \<noteq> j \<and> k' \<noteq> j + 1" by blast
      then show "\<exists>k''\<le>bound. ?hs ! k' = hs ! k''"
      proof cases
        case 1
        then show ?thesis
          using True by (auto simp: sortStep_nth [OF j] intro: exI [of _ j] exI [of _ "j + 1"])
      next
        case 2
        then show ?thesis
          using True by (auto simp: sortStep_nth [OF j] intro: exI [of _ j] exI [of _ "j + 1"])
      next
        case 3
        then show ?thesis
          using k' by (auto simp: sortStep_nth [OF j])
      qed
    qed
    show ?thesis
      unfolding unfold using ih later from_prefix by (metis sortStep_length)
  next
    case False
    then have "j = bound" using "1.prems"(2) by simp
    moreover have "sortInner hs j bound = hs"
      using False by (subst sortInner_step) simp
    ultimately show ?thesis
      using "1.prems"(3) by auto
  qed
qed

lemma sortOuter_keeps:
  assumes "n \<le> length hs"
  shows "mset (sortOuter hs i n) = mset hs
       \<and> (\<forall>c. filter (\<lambda>x. priorityOf x = c) (sortOuter hs i n)
                 = filter (\<lambda>x. priorityOf x = c) hs)"
  using assms
proof (induction hs i n rule: sortOuter.induct)
  case (1 hs i n)
  show ?case
  proof (cases "i + 1 < n")
    case True
    then have b: "n - i - 1 < length hs"
      using "1.prems" by simp
    let ?hs = "sortInner hs 0 (n - i - 1)"
    have len: "length ?hs = length hs"
      by (rule sortInner_length [OF b])
    have step: "sortOuter hs i n = sortOuter ?hs (i + 1) n"
      using True by (subst sortOuter.simps) simp
    show ?thesis
      unfolding step using "1.IH" [OF True] "1.prems" len sortInner_keeps [OF b, of 0]
      by simp
  next
    case False
    then have "sortOuter hs i n = hs"
      by (subst sortOuter.simps) simp
    then show ?thesis by simp
  qed
qed

text \<open>
  The outer loop: once the last \<open>i\<close> positions are in descending order of priority and
  hold nothing of higher priority than any earlier position, the result is in descending
  order of priority.
\<close>

lemma sortOuter_sorts:
  assumes "n = length hs" "i < n \<or> n = 0"
    and "\<forall>a b. n - i \<le> a \<longrightarrow> a < b \<longrightarrow> b < n \<longrightarrow> priorityOf (hs ! b) \<le> priorityOf (hs ! a)"
    and "\<forall>k m. k < n - i \<longrightarrow> n - i \<le> m \<longrightarrow> m < n \<longrightarrow> priorityOf (hs ! m) \<le> priorityOf (hs ! k)"
  shows "sorted_wrt (\<lambda>x y. priorityOf y \<le> priorityOf x) (sortOuter hs i n)"
  using assms
proof (induction hs i n rule: sortOuter.induct)
  case (1 hs i n)
  show ?case
  proof (cases "i + 1 < n")
    case True
    let ?b = "n - i - 1"
    let ?hs = "sortInner hs 0 ?b"
    have b: "?b < length hs"
      using True "1.prems"(1) by simp
    have len: "length ?hs = length hs"
      by (rule sortInner_length [OF b])
    from sortInner_bubbles [OF b, of 0]
    have least: "\<forall>k<?b. priorityOf (?hs ! ?b) \<le> priorityOf (?hs ! k)"
      and later: "\<forall>k. ?b < k \<longrightarrow> k < length hs \<longrightarrow> ?hs ! k = hs ! k"
      and prefix: "\<forall>k\<le>?b. \<exists>k'\<le>?b. ?hs ! k = hs ! k'"
      by simp_all
    have step: "sortOuter hs i n = sortOuter ?hs (i + 1) n"
      using True by (subst sortOuter.simps) simp
    have nb: "n - (i + 1) = ?b"
      by simp
    have suffix: "\<forall>a b. n - (i + 1) \<le> a \<longrightarrow> a < b \<longrightarrow> b < n
                    \<longrightarrow> priorityOf (?hs ! b) \<le> priorityOf (?hs ! a)"
    proof (intro allI impI)
      fix a b
      assume a: "n - (i + 1) \<le> a" and ab: "a < b" and bn: "b < n"
      have "?b < b" "b < length hs"
        using a ab bn "1.prems"(1) by linarith+
      then have hb: "?hs ! b = hs ! b"
        using later by blast
      show "priorityOf (?hs ! b) \<le> priorityOf (?hs ! a)"
      proof (cases "a = ?b")
        case True
        then obtain k' where k': "k' \<le> ?b" "?hs ! a = hs ! k'"
          using prefix by blast
        have "k' < n - i" "n - i \<le> b"
          using k'(1) ab True \<open>i + 1 < n\<close> by linarith+
        then have "priorityOf (hs ! b) \<le> priorityOf (hs ! k')"
          using "1.prems"(4) bn by blast
        then show ?thesis
          using hb k'(2) by simp
      next
        case False
        then have na: "n - i \<le> a"
          using a by linarith
        have "?b < a" "a < length hs"
          using na ab bn \<open>i + 1 < n\<close> "1.prems"(1) by linarith+
        then have "?hs ! a = hs ! a"
          using later by blast
        moreover have "priorityOf (hs ! b) \<le> priorityOf (hs ! a)"
          using "1.prems"(3) na ab bn by blast
        ultimately show ?thesis
          using hb by simp
      qed
    qed
    have front: "\<forall>k m. k < n - (i + 1) \<longrightarrow> n - (i + 1) \<le> m \<longrightarrow> m < n
                    \<longrightarrow> priorityOf (?hs ! m) \<le> priorityOf (?hs ! k)"
    proof (intro allI impI)
      fix k m
      assume k: "k < n - (i + 1)" and m: "n - (i + 1) \<le> m" and mn: "m < n"
      show "priorityOf (?hs ! m) \<le> priorityOf (?hs ! k)"
      proof (cases "m = ?b")
        case True
        have "k < ?b"
          using k by simp
        then show ?thesis
          using least True by blast
      next
        case False
        then have m': "n - i \<le> m"
          using m by linarith
        have "?b < m" "m < length hs"
          using m' mn \<open>i + 1 < n\<close> "1.prems"(1) by linarith+
        then have hm: "?hs ! m = hs ! m"
          using later by blast
        have "k \<le> ?b"
          using k by simp
        then obtain k' where k': "k' \<le> ?b" "?hs ! k = hs ! k'"
          using prefix by blast
        have "k' < n - i"
          using k'(1) \<open>i + 1 < n\<close> by linarith
        then have "priorityOf (hs ! m) \<le> priorityOf (hs ! k')"
          using "1.prems"(4) m' mn by blast
        then show ?thesis
          using hm k'(2) by simp
      qed
    qed
    have "sorted_wrt (\<lambda>x y. priorityOf y \<le> priorityOf x) (sortOuter ?hs (i + 1) n)"
    proof (rule "1.IH" [OF True])
      show "n = length ?hs" using "1.prems"(1) len by simp
      show "i + 1 < n \<or> n = 0" using True by simp
      show "\<forall>a b. n - (i + 1) \<le> a \<longrightarrow> a < b \<longrightarrow> b < n
                    \<longrightarrow> priorityOf (?hs ! b) \<le> priorityOf (?hs ! a)"
        by (rule suffix)
      show "\<forall>k m. k < n - (i + 1) \<longrightarrow> n - (i + 1) \<le> m \<longrightarrow> m < n
                    \<longrightarrow> priorityOf (?hs ! m) \<le> priorityOf (?hs ! k)"
        by (rule front)
    qed
    then show ?thesis
      unfolding step .
  next
    case False
    then have same: "sortOuter hs i n = hs"
      by (subst sortOuter.simps) simp
    show ?thesis
    proof (cases "n = 0")
      case True
      then show ?thesis
        using same "1.prems"(1) by simp
    next
      case nz: False
      then have i: "i = n - 1"
        using False "1.prems"(2) by linarith
      have ni: "n - i = 1"
        using i nz by simp
      have "priorityOf (hs ! b) \<le> priorityOf (hs ! a)" if ab: "a < b" "b < length hs" for a b
      proof (cases "a = 0")
        case True
        have "a < n - i" "n - i \<le> b" "b < n"
          using True ni ab "1.prems"(1) by simp_all
        then show ?thesis
          using "1.prems"(4) by blast
      next
        case False
        have "n - i \<le> a" "b < n"
          using False ni ab "1.prems"(1) by simp_all
        then show ?thesis
          using "1.prems"(3) ab(1) by blast
      qed
      then show ?thesis
        unfolding same by (simp add: sorted_wrt_iff_nth_less)
    qed
  qed
qed

text \<open>The sort of the source is the stable sort by descending priority.\<close>

lemma sortHandlersByPriority_stable_sort:
  "sortHandlersByPriority hs = sort_key (\<lambda>h. - priorityOf h) hs"
proof -
  let ?r = "sortHandlersByPriority hs"
  have keeps: "mset ?r = mset hs"
    "\<And>c. filter (\<lambda>x. priorityOf x = c) ?r = filter (\<lambda>x. priorityOf x = c) hs"
    using sortOuter_keeps [of "length hs" hs 0] by (simp_all add: sortHandlersByPriority_def)
  have "sorted_wrt (\<lambda>x y. priorityOf y \<le> priorityOf x) ?r"
    unfolding sortHandlersByPriority_def
    by (rule sortOuter_sorts) auto
  then have "sorted (map (\<lambda>h. - priorityOf h) ?r)"
    by (simp add: sorted_map)
  moreover have "filter (\<lambda>x. - priorityOf k = - priorityOf x) ?r
                   = filter (\<lambda>x. - priorityOf k = - priorityOf x) hs" for k
    using keeps(2) [of "priorityOf k"] by (simp add: eq_commute)
  ultimately show ?thesis
    using keeps(1) by (intro properties_for_sort_key [symmetric]) auto
qed

lemma asString_Some_iff: "asString x \<noteq> None \<longleftrightarrow> (\<exists>s. x = Some (GStr s))"
  by (cases x rule: asString.cases) simp_all

lemma sortHandlersByPriority_descending:
  "sorted_wrt (\<lambda>a b. priorityOf b \<le> priorityOf a) (sortHandlersByPriority hs)"
proof -
  have "sorted (map (\<lambda>h. - priorityOf h) (sort_key (\<lambda>h. - priorityOf h) hs))"
    by (rule sorted_sort_key)
  then show ?thesis
    by (simp add: sortHandlersByPriority_stable_sort sorted_map)
qed

lemma sortHandlersByPriority_set: "set (sortHandlersByPriority hs) = set hs"
  by (simp add: sortHandlersByPriority_stable_sort)

text \<open>Every handler that the loop of \<open>MatchEvent\<close> collects is in the snapshot, is enabled,
  has no open breaker and passes its filter.\<close>

lemma matchLoop_sound:
  assumes "matchLoop w event now hs em = Inr (matches, em')"
  shows "\<forall>h\<in>set matches. h \<in> set hs \<and> asBool (map_of h ''enabled'') = Some True
           \<and> \<not> isCircuitBreakerOpen w now h \<and> matchesFilter w h event"
  using assms
proof (induction hs arbitrary: em matches em')
  case Nil
  then show ?case by simp
next
  case (Cons handler rest)
  show ?case
  proof (cases "asBool (map_of handler ''enabled'') = Some True
                 \<and> \<not> isCircuitBreakerOpen w now handler")
    case False
    then have "matchLoop w event now rest em = Inr (matches, em')"
      using Cons.prems by (auto split: if_splits)
    from Cons.IH [OF this] show ?thesis by simp
  next
    case True
    show ?thesis
    proof (cases "checkRateLimits handler event now em")
      case (Inl err)
      then show ?thesis using Cons.prems True by simp
    next
      case (Inr r)
      obtain allowed em1 where r: "r = (allowed, em1)" by (cases r)
      show ?thesis
      proof (cases "checkCooldown w handler now em1")
        case (Inl err)
        then have "matchLoop w event now rest em1 = Inr (matches, em')"
          using Cons.prems True Inr r by (auto split: if_splits)
        from Cons.IH [OF this] show ?thesis by simp
      next
        case cd: (Inr cooled)
        show ?thesis
        proof (cases "allowed \<and> cooled \<and> matchesFilter w handler event")
          case False
          then have "matchLoop w event now rest em1 = Inr (matches, em')"
            using Cons.prems True Inr r cd by (auto split: if_splits)
          from Cons.IH [OF this] show ?thesis by simp
        next
          case yes: True
          then obtain ms where ms: "matchLoop w event now rest em1 = Inr (ms, em')"
            and m: "matches = handler # ms"
            using Cons.prems True Inr r cd by (auto split: sum.splits)
          from Cons.IH [OF ms] show ?thesis
            using m True yes by simp
        qed
      qed
    qed
  qed
qed

lemma MatchEvent_sound:
  assumes "MatchEvent w event now em = Inr (matches, em')"
  shows "\<forall>h\<in>set matches. h \<in> set (handlers em) \<and> asBool (map_of h ''enabled'') = Some True
           \<and> \<not> isCircuitBreakerOpen w now h \<and> matchesFilter w h event"
proof -
  from assms obtain ms where ms: "matchLoop w event now (handlers em) em = Inr (ms, em')"
    and m: "matches = sortHandlersByPriority ms"
    by (auto simp: MatchEvent_def split: sum.splits)
  show ?thesis
    using matchLoop_sound [OF ms] by (simp add: m sortHandlersByPriority_set)
qed

text \<open>
  The state of the breaker as the store holds it. Whatever the handler map says, the row
  that \<open>SaveHandler\<close> writes has the state \<^verbatim>\<open>closed\<close> and both counters at zero: its
  statement does not list these columns. \<open>UpdateCircuitBreaker\<close> writes through
  \<open>SaveHandler\<close> only, so an update that changes the store leaves the state \<^verbatim>\<open>closed\<close>
  and the counters at zero, after a success and after a failure alike.
\<close>

lemma SaveHandler_writes_closed:
  assumes ok: "SaveHandler w now h db = Inr db'"
    and hid: "map_of h ''handler_id'' = Some (GStr handlerID)"
  shows "\<exists>row. rowsOf db' handlerID = [row]
           \<and> row_circuit_breaker_state row = Some ''closed''
           \<and> row_execution_count row = 0 \<and> row_total_errors row = 0"
proof -
  from ok hid obtain description priority maxPerMin maxPerHour maxPerSenderHour cooldown timeout
    where db': "db' = db\<lparr>event_handlers :=
               insertOrReplace
                 (savedRow w now h (CText handlerID) description priority maxPerMin maxPerHour
                    maxPerSenderHour cooldown timeout)
                 (event_handlers db)\<rparr>"
    unfolding SaveHandler_def
    by (auto split: if_splits option.splits)
  let ?row = "savedRow w now h (CText handlerID) description priority maxPerMin maxPerHour
                    maxPerSenderHour cooldown timeout"
  have id: "row_handler_id ?row = CText handlerID"
    by (simp add: savedRow_def Let_def textAffinity_def)
  have "rowsOf db' handlerID = [?row]"
    unfolding rowsOf_def db' using rowsOf_insertOrReplace [OF id] by simp
  moreover have "row_circuit_breaker_state ?row = Some ''closed''"
    "row_execution_count ?row = 0" "row_total_errors ?row = 0"
    by (simp_all add: savedRow_def Let_def)
  ultimately show ?thesis
    by simp
qed

lemma UpdateCircuitBreaker_cases:
  assumes "GetHandler w handlerID db = Inr handler"
  shows "UpdateCircuitBreaker w now handlerID success db = Inr db
       \<or> (\<exists>v. UpdateCircuitBreaker w now handlerID success db
                 = SaveHandler w now (AList.update ''circuit_breaker_state'' v handler) db)"
proof (cases "asBool (map_of handler ''circuit_breaker_enabled'')")
  case None
  then show ?thesis
    by (simp add: UpdateCircuitBreaker_def assms)
next
  case (Some cbEnabled)
  show ?thesis
  proof (cases cbEnabled)
    case False
    then show ?thesis
      by (simp add: UpdateCircuitBreaker_def assms Some)
  next
    case True
    show ?thesis
    proof (cases success)
      case yes: True
      have "UpdateCircuitBreaker w now handlerID success db
              = SaveHandler w now
                  (AList.update ''circuit_breaker_state'' (GStr ''closed'') handler) db"
        by (simp add: UpdateCircuitBreaker_def assms Some True yes)
      then show ?thesis by blast
    next
      case no: False
      let ?threshold = "case asInt64 (map_of handler ''circuit_breaker_threshold'') of
                          Some t \<Rightarrow> t | None \<Rightarrow> 5"
      show ?thesis
      proof (cases "intOrZero (map_of handler ''total_errors'') \<ge> ?threshold")
        case reached: True
        have "UpdateCircuitBreaker w now handlerID success db
                = SaveHandler w now
                    (AList.update ''circuit_breaker_state'' (GStr ''open'') handler) db"
          using reached by (simp add: UpdateCircuitBreaker_def assms Some True no Let_def)
        then show ?thesis by blast
      next
        case below: False
        have "UpdateCircuitBreaker w now handlerID success db = Inr db"
          using below by (simp add: UpdateCircuitBreaker_def assms Some True no Let_def)
        then show ?thesis by blast
      qed
    qed
  qed
qed

lemma UpdateCircuitBreaker_never_opens:
  assumes "UpdateCircuitBreaker w now handlerID success db = Inr db'"
  shows "db' = db
       \<or> (\<exists>row. rowsOf db' handlerID = [row]
            \<and> row_circuit_breaker_state row = Some ''closed''
            \<and> row_execution_count row = 0 \<and> row_total_errors row = 0)"
proof (cases "GetHandler w handlerID db")
  case (Inl err)
  then show ?thesis
    using assms by (simp add: UpdateCircuitBreaker_def)
next
  case (Inr handler)
  have "\<exists>s. map_of handler ''handler_id'' = Some (GStr s) \<and> s = handlerID"
    using Inr
    by (auto simp: GetHandler_def handlerOfRow_key split: if_splits list.splits option.splits)
  then have hid: "map_of (AList.update ''circuit_breaker_state'' v handler) ''handler_id''
                    = Some (GStr handlerID)" for v
    by (simp add: update_conv')
  from UpdateCircuitBreaker_cases [OF Inr, of now success]
  show ?thesis
  proof
    assume "UpdateCircuitBreaker w now handlerID success db = Inr db"
    with assms show ?thesis by simp
  next
    assume "\<exists>v. UpdateCircuitBreaker w now handlerID success db
                 = SaveHandler w now (AList.update ''circuit_breaker_state'' v handler) db"
    then obtain v where
      "SaveHandler w now (AList.update ''circuit_breaker_state'' v handler) db = Inr db'"
      using assms by auto
    from SaveHandler_writes_closed [OF this hid] show ?thesis
      by blast
  qed
qed

text \<open>
  The check at match time: a handler whose snapshot says that the breaker is enabled and
  open, with a last error time that parses and lies less than the reset window back, is
  not returned by \<open>MatchEvent\<close>. No row that \<open>SaveHandler\<close> wrote gives such a snapshot.
\<close>

lemma open_breaker_excluded:
  assumes "map_of h ''circuit_breaker_enabled'' = Some (GBool True)"
    and "map_of h ''circuit_breaker_state'' = Some (GStr ''open'')"
    and "map_of h ''last_error_time'' = Some (GStr stamp)"
    and "ParseRFC3339 w stamp = Some lastError"
    and "map_of h ''circuit_breaker_reset_seconds'' = Some (GInt64 resetSeconds)"
    and "Seconds w (Since now lastError) < Float64 w (of_int resetSeconds)"
    and "MatchEvent w event now em = Inr (matches, em')"
  shows "h \<notin> set matches"
proof -
  have "isCircuitBreakerOpen w now h"
    using assms(1-6) by (simp add: isCircuitBreakerOpen_def stringOrZero_def)
  then show ?thesis
    using MatchEvent_sound [OF assms(7)] by blast
qed

text \<open>
  The answer of \<open>checkRateLimits\<close> and of \<open>checkCooldown\<close> is a function of the handler,
  the event, the clock and the readings of the handler's limiter; the calls leave the
  readings of every limiter as they were.
\<close>

lemma asString_SomeD: "asString x = Some s \<Longrightarrow> x = Some (GStr s)"
  by (cases x rule: asString.cases) simp_all

lemma limiterFor_counts:
  "counter (perMinuteCounts (fst (limiterFor hid em))) m = minuteCount em hid m"
  "counter (perHourCounts (fst (limiterFor hid em))) m = hourCount em hid m"
  "senderCounter (fst (limiterFor hid em)) sender m = senderHourCount em hid sender m"
  by (simp_all add: limiterFor_def minuteCount_def hourCount_def senderHourCount_def
        newRateLimiter_def counter_def senderCounter_def split: option.split)

lemma checkLimiter_allowed:
  "fst (checkLimiter handler event now limiter) \<longleftrightarrow>
     \<not> limitReached handler ''max_executions_per_minute''
          (counter (perMinuteCounts limiter) (quot (Unix now) 60))
     \<and> \<not> limitReached handler ''max_executions_per_hour''
          (counter (perHourCounts limiter) (quot (Unix now) 3600))
     \<and> (senderEnforced handler event \<longrightarrow>
          \<not> limitReached handler ''max_executions_per_sender_per_hour''
              (senderCounter limiter (stringOrZero (map_of event ''from''))
                 (quot (Unix now) 3600)))"
  by (simp add: checkLimiter_normal)

lemma checkRateLimits_allowed:
  assumes hid: "map_of handler ''handler_id'' = Some (GStr hid)"
    and same: "limiterReadings event now em1 hid = limiterReadings event now em2 hid"
  shows "map_sum id fst (checkRateLimits handler event now em1)
           = map_sum id fst (checkRateLimits handler event now em2)"
proof -
  obtain e1 where c1: "checkRateLimits handler event now em1
      = Inr (fst (checkLimiter handler event now (fst (limiterFor hid em1))), e1)"
    using checkRateLimits_total [OF hid] by blast
  obtain e2 where c2: "checkRateLimits handler event now em2
      = Inr (fst (checkLimiter handler event now (fst (limiterFor hid em2))), e2)"
    using checkRateLimits_total [OF hid] by blast
  have "fst (checkLimiter handler event now (fst (limiterFor hid em1)))
          = fst (checkLimiter handler event now (fst (limiterFor hid em2)))"
    using same by (simp only: checkLimiter_allowed limiterFor_counts limiterReadings_def prod.inject)
  then show ?thesis
    by (simp add: c1 c2)
qed

lemma checkRateLimits_keeps:
  assumes "checkRateLimits handler event now em = Inr (allowed, em')"
  shows "handlers em' = handlers em"
    and "limiterReadings e n em' k = limiterReadings e n em k"
proof -
  from assms obtain handlerID where hid: "asString (map_of handler ''handler_id'') = Some handlerID"
    by (auto simp: checkRateLimits_def split: option.splits)
  obtain limiter em1 where lf: "limiterFor handlerID em = (limiter, em1)"
    by force
  obtain ok limiter1 where cl: "checkLimiter handler event now limiter = (ok, limiter1)"
    by force
  have em': "em' = storeLimiter handlerID limiter1 em1"
    using assms hid lf cl by (simp add: checkRateLimits_def)
  have look: "\<And>k. map_of (rateLimits em') k
                = (if k = handlerID then Some limiter1 else map_of (rateLimits em) k)"
    by (simp add: em' storeLimiter_lookup limiterFor_lookup(1) [OF lf])
  have zero: "map_of (rateLimits em) handlerID = None \<Longrightarrow> limiter = newRateLimiter"
    by (rule limiterFor_lookup(3) [OF lf])
  have same: "\<And>l. map_of (rateLimits em) handlerID = Some l \<Longrightarrow> limiter = l"
    by (rule limiterFor_lookup(4) [OF lf])
  note keep = checkLimiter_counts [OF cl]
  have minute: "minuteCount em' h m = minuteCount em h m" for h m
    using zero same keep(1)
    by (cases "map_of (rateLimits em) handlerID")
       (auto simp: minuteCount_def look newRateLimiter_def counter_def)
  have hour: "hourCount em' h m = hourCount em h m" for h m
    using zero same keep(2)
    by (cases "map_of (rateLimits em) handlerID")
       (auto simp: hourCount_def look newRateLimiter_def counter_def)
  have sender: "senderHourCount em' h s m = senderHourCount em h s m" for h s m
    using zero same keep(3) [of s m]
    by (cases "map_of (rateLimits em) handlerID")
       (auto simp: senderHourCount_def look newRateLimiter_def senderCounter_def)
  have last: "lastExecutionOf em' h = lastExecutionOf em h" for h
    using zero same keep(4)
    by (cases "map_of (rateLimits em) handlerID")
       (auto simp: lastExecutionOf_def look newRateLimiter_def)
  show "handlers em' = handlers em"
    by (simp add: em' storeLimiter_lookup limiterFor_lookup(2) [OF lf])
  show "limiterReadings e n em' k = limiterReadings e n em k"
    by (simp only: limiterReadings_def minute hour sender last)
qed

lemma checkCooldown_reads:
  "checkCooldown w handler now em =
     (case asInt64 (map_of handler ''cooldown_seconds'') of
        None \<Rightarrow> Inr True
      | Some cooldownSeconds \<Rightarrow>
          if cooldownSeconds \<le> 0 then Inr True
          else
            (case asString (map_of handler ''handler_id'') of
               None \<Rightarrow> Inl Panic
             | Some handlerID \<Rightarrow>
                 (case lastExecutionOf em handlerID of
                    None \<Rightarrow> Inr True
                  | Some lastExec \<Rightarrow>
                      Inr (Seconds w (Since now lastExec) \<ge> Float64 w (of_int cooldownSeconds)))))"
  by (simp add: checkCooldown_def lastExecutionOf_def split: option.split)

lemma checkCooldown_same:
  assumes "asString (map_of handler ''handler_id'') = Some hid"
    and "limiterReadings event now em1 hid = limiterReadings event now em2 hid"
  shows "checkCooldown w handler now em1 = checkCooldown w handler now em2"
  using assms by (simp add: checkCooldown_reads limiterReadings_def split: option.split)

lemma matchLoop_keeps:
  assumes "matchLoop w event now hs em = Inr (matches, em')"
  shows "handlers em' = handlers em
       \<and> (\<forall>k. limiterReadings event now em' k = limiterReadings event now em k)"
  using assms
proof (induction hs arbitrary: em matches)
  case Nil
  then show ?case by simp
next
  case (Cons handler rest)
  show ?case
  proof (cases "asBool (map_of handler ''enabled'') = Some True
                 \<and> \<not> isCircuitBreakerOpen w now handler")
    case False
    then have "matchLoop w event now rest em = Inr (matches, em')"
      using Cons.prems by (auto split: if_splits)
    from Cons.IH [OF this] show ?thesis .
  next
    case True
    show ?thesis
    proof (cases "checkRateLimits handler event now em")
      case (Inl err)
      then show ?thesis using Cons.prems True by simp
    next
      case (Inr r)
      obtain allowed em1 where r: "r = (allowed, em1)" by (cases r)
      have c: "checkRateLimits handler event now em = Inr (allowed, em1)"
        using Inr r by simp
      note keep = checkRateLimits_keeps [OF c]
      have "\<exists>ms. matchLoop w event now rest em1 = Inr (ms, em')"
        using Cons.prems True c
        by (auto split: if_splits sum.splits)
      then obtain ms where "matchLoop w event now rest em1 = Inr (ms, em')"
        by blast
      from Cons.IH [OF this] show ?thesis
        by (simp add: keep)
    qed
  qed
qed

lemma matchLoop_skip:
  assumes "asBool (map_of handler ''enabled'') \<noteq> Some True \<or> isCircuitBreakerOpen w now handler"
  shows "matchLoop w event now (handler # rest) em = matchLoop w event now rest em"
  using assms by auto

lemma matchLoop_step:
  assumes "asBool (map_of handler ''enabled'') = Some True"
    and "\<not> isCircuitBreakerOpen w now handler"
    and "checkRateLimits handler event now em = Inr (allowed, em1)"
    and "checkCooldown w handler now em1 = Inr cooled"
  shows "matchLoop w event now (handler # rest) em =
           (if allowed \<and> cooled \<and> matchesFilter w handler event
            then (case matchLoop w event now rest em1 of
                    Inl err \<Rightarrow> Inl err
                  | Inr (matches, em2) \<Rightarrow> Inr (handler # matches, em2))
            else matchLoop w event now rest em1)"
  using assms by simp

lemma matchLoop_panic:
  assumes "asBool (map_of handler ''enabled'') = Some True"
    and "\<not> isCircuitBreakerOpen w now handler"
    and "asString (map_of handler ''handler_id'') = None"
  shows "matchLoop w event now (handler # rest) em = Inl Panic"
  using assms by (simp add: checkRateLimits_def)

lemma matched_cons:
  "map_sum id fst (case r of Inl err \<Rightarrow> Inl err
                   | Inr (matches, em2) \<Rightarrow> Inr (handler # matches, em2))
     = map_sum id ((#) handler) (map_sum id fst r)"
  by (cases r) auto

lemma matchLoop_readings:
  assumes "\<forall>h\<in>set hs. limiterReadings event now em1 (idOf h)
                        = limiterReadings event now em2 (idOf h)"
  shows "map_sum id fst (matchLoop w event now hs em1)
           = map_sum id fst (matchLoop w event now hs em2)"
  using assms
proof (induction hs arbitrary: em1 em2)
  case Nil
  show ?case by simp
next
  case (Cons handler rest)
  have rest: "map_sum id fst (matchLoop w event now rest e1)
                = map_sum id fst (matchLoop w event now rest e2)"
    if "\<forall>k. limiterReadings event now e1 k = limiterReadings event now em1 k"
      and "\<forall>k. limiterReadings event now e2 k = limiterReadings event now em2 k" for e1 e2
  proof (rule Cons.IH)
    show "\<forall>h\<in>set rest. limiterReadings event now e1 (idOf h)
                           = limiterReadings event now e2 (idOf h)"
      using that Cons.prems by simp
  qed
  show ?case
  proof (cases "asBool (map_of handler ''enabled'') = Some True
                 \<and> \<not> isCircuitBreakerOpen w now handler")
    case False
    then have skip: "asBool (map_of handler ''enabled'') \<noteq> Some True
                       \<or> isCircuitBreakerOpen w now handler"
      by blast
    have "map_sum id fst (matchLoop w event now rest em1)
            = map_sum id fst (matchLoop w event now rest em2)"
      by (rule rest) simp_all
    then show ?thesis
      by (simp only: matchLoop_skip [OF skip])
  next
    case True
    then have en: "asBool (map_of handler ''enabled'') = Some True"
      and cb: "\<not> isCircuitBreakerOpen w now handler"
      by simp_all
    show ?thesis
    proof (cases "asString (map_of handler ''handler_id'')")
      case None
      show ?thesis
        by (simp only: matchLoop_panic [OF en cb None])
    next
      case (Some hid)
      then have hid: "map_of handler ''handler_id'' = Some (GStr hid)"
        by (rule asString_SomeD)
      have "idOf handler = hid"
        by (simp add: idOf_def stringOrZero_def Some)
      then have same: "limiterReadings event now em1 hid = limiterReadings event now em2 hid"
        using Cons.prems by auto
      obtain a1 e1 where c1: "checkRateLimits handler event now em1 = Inr (a1, e1)"
        using checkRateLimits_total [OF hid] by blast
      obtain a2 e2 where c2: "checkRateLimits handler event now em2 = Inr (a2, e2)"
        using checkRateLimits_total [OF hid] by blast
      have "a2 = a1"
        using checkRateLimits_allowed [OF hid same] c1 c2 by simp
      with c2 have c2: "checkRateLimits handler event now em2 = Inr (a1, e2)"
        by simp
      have k1: "\<forall>k. limiterReadings event now e1 k = limiterReadings event now em1 k"
        using checkRateLimits_keeps(2) [OF c1] by blast
      have k2: "\<forall>k. limiterReadings event now e2 k = limiterReadings event now em2 k"
        using checkRateLimits_keeps(2) [OF c2] by blast
      have "limiterReadings event now e1 hid = limiterReadings event now e2 hid"
        using k1 k2 same by simp
      then have cd: "checkCooldown w handler now e1 = checkCooldown w handler now e2"
        by (rule checkCooldown_same [OF Some])
      obtain cooled where d1: "checkCooldown w handler now e1 = Inr cooled"
        using checkCooldown_total [OF hid] by blast
      have d2: "checkCooldown w handler now e2 = Inr cooled"
        using cd d1 by simp
      note r = rest [OF k1 k2]
      show ?thesis
        by (simp only: matchLoop_step [OF en cb c1 d1] matchLoop_step [OF en cb c2 d2]
              matched_cons r if_distrib [of "map_sum id fst"] cong: if_cong)
    qed
  qed
qed

lemma matchList_matchLoop:
  "matchList w event now em
     = map_sum id sortHandlersByPriority (map_sum id fst (matchLoop w event now (handlers em) em))"
  by (simp add: matchList_def MatchEvent_def split: sum.split)

text \<open>
  C4. For every snapshot whose handlers carry a string id (so that the limiter lookup does
  not panic), and any event, clock and limiter state, \<open>MatchEvent\<close> returns, and the list
  it returns is sorted by priority descending; the call leaves the snapshot and the
  readings of every limiter as they were, so that the same call repeated at the same clock
  reading returns the same list. For a snapshot that \<open>LoadHandlers\<close> built from the store,
  two handlers of equal priority moreover appear in ascending byte order of their handler
  ids: the store lists the handlers in this order, the checks keep the order, and the sort,
  being stable, keeps the order of equal priorities. The list is fixed by the snapshot, the
  event, the clock reading and, for each handler of the snapshot, the readings of its
  limiter (the counts of the current minute, of the current hour and of the sender in the
  current hour, and the last execution time): two matchers that agree on these return the
  same list. The snapshot and the event alone do not fix it.
\<close>

theorem MatchEvent_priority_order:
  "((\<forall>h\<in>set (handlers em1). asString (map_of h ''handler_id'') \<noteq> None) \<longrightarrow>
      (\<exists>matches em'. MatchEvent w event now em1 = Inr (matches, em')
         \<and> sorted_wrt (\<lambda>a b. priorityOf b \<le> priorityOf a) matches
         \<and> handlers em' = handlers em1
         \<and> (\<forall>handlerID. limiterReadings event now em' handlerID
                           = limiterReadings event now em1 handlerID)
         \<and> (\<exists>em''. MatchEvent w event now em' = Inr (matches, em''))))
   \<and> (primaryKey db \<and> LoadHandlers w db em0 = Inr em \<and> handlers em1 = handlers em \<longrightarrow>
      (\<exists>matches em'. MatchEvent w event now em1 = Inr (matches, em')
         \<and> sorted_wrt precedes matches))
   \<and> (handlers em2 = handlers em1
       \<and> list_all (\<lambda>h. limiterReadings event now em2 (idOf h)
                          = limiterReadings event now em1 (idOf h)) (handlers em1) \<longrightarrow>
      matchList w event now em2 = matchList w event now em1)"
proof (intro conjI impI)
  assume "\<forall>h\<in>set (handlers em1). asString (map_of h ''handler_id'') \<noteq> None"
  then have "\<forall>h\<in>set (handlers em1). \<exists>s. map_of h ''handler_id'' = Some (GStr s)"
    using asString_Some_iff by blast
  from matchLoop_subseq [OF this]
  obtain ms em' where ml: "matchLoop w event now (handlers em1) em1 = Inr (ms, em')"
    by blast
  then have me: "MatchEvent w event now em1 = Inr (sortHandlersByPriority ms, em')"
    by (simp add: MatchEvent_def)
  note keep = matchLoop_keeps [OF ml]
  from keep have hs: "handlers em' = handlers em1"
    and rd: "\<forall>handlerID. limiterReadings event now em' handlerID
                           = limiterReadings event now em1 handlerID"
    by simp_all
  have "map_sum id fst (matchLoop w event now (handlers em1) em')
          = map_sum id fst (matchLoop w event now (handlers em1) em1)"
    by (rule matchLoop_readings) (simp add: rd)
  then have "matchList w event now em' = Inr (sortHandlersByPriority ms)"
    by (simp add: matchList_matchLoop hs ml)
  then have again: "\<exists>em''. MatchEvent w event now em' = Inr (sortHandlersByPriority ms, em'')"
    by (cases "MatchEvent w event now em'") (auto simp: matchList_def)
  show "\<exists>matches em'. MatchEvent w event now em1 = Inr (matches, em')
         \<and> sorted_wrt (\<lambda>a b. priorityOf b \<le> priorityOf a) matches
         \<and> handlers em' = handlers em1
         \<and> (\<forall>handlerID. limiterReadings event now em' handlerID
                           = limiterReadings event now em1 handlerID)
         \<and> (\<exists>em''. MatchEvent w event now em' = Inr (matches, em''))"
    using me sortHandlersByPriority_descending hs rd again by blast
next
  assume a: "primaryKey db \<and> LoadHandlers w db em0 = Inr em \<and> handlers em1 = handlers em"
  then have pk: "primaryKey db" and load: "LoadHandlers w db em0 = Inr em"
    and snapshot: "handlers em1 = handlers em"
    by simp_all
  from load obtain listed fulls where ls: "ListHandlers w True db = Inr listed"
    and lf: "loadFull w db listed = Inr fulls" and em: "handlers em = fulls"
    unfolding LoadHandlers_def by (auto split: sum.splits)
  note listed = ListHandlers_listed [OF pk ls]
  from loadFull_keys [OF pk listed(3), of w] lf
  have sub: "subseq (map orderKey fulls) (map orderKey listed)"
    and ids: "\<forall>f\<in>set fulls. \<exists>s. map_of f ''handler_id'' = Some (GStr s)"
    by auto
  have "map idOf listed = map snd (map orderKey listed)"
    by (simp add: orderKey_def idOf_def)
  with listed(2) have "distinct (map snd (map orderKey listed))"
    by (simp only:)
  then have "distinct (map orderKey listed)"
    by (rule distinct_map [THEN iffD1, THEN conjunct1])
  then have "sorted_wrt (<) (map orderKey listed)"
    using listed(1) by (simp add: strict_sorted_iff)
  then have "sorted_wrt (<) (map orderKey fulls)"
    using sub by (rule sorted_wrt_subseq [rotated])
  then have full_order: "sorted_wrt precedes fulls"
    by (simp only: sorted_wrt_map precedes_eq)
  obtain matches em' where ml: "matchLoop w event now fulls em1 = Inr (matches, em')"
    and ms: "subseq matches fulls"
    using matchLoop_subseq [OF ids] by blast
  have order: "sorted_wrt precedes matches"
    using ms full_order by (rule sorted_wrt_subseq)
  then have "sorted_wrt (\<lambda>a b. \<not> priorityOf a < priorityOf b) matches"
    by (rule sorted_wrt_mono_rel [rotated]) (auto simp: precedes_def)
  then have "sortHandlersByPriority matches = matches"
    by (rule sortHandlersByPriority_sorted)
  then have "MatchEvent w event now em1 = Inr (matches, em')"
    using ml snapshot em by (simp add: MatchEvent_def)
  with order show "\<exists>matches em'. MatchEvent w event now em1 = Inr (matches, em')
         \<and> sorted_wrt precedes matches"
    by blast
next
  assume a: "handlers em2 = handlers em1
       \<and> list_all (\<lambda>h. limiterReadings event now em2 (idOf h)
                          = limiterReadings event now em1 (idOf h)) (handlers em1)"
  then have hs: "handlers em2 = handlers em1"
    and rd: "\<forall>h\<in>set (handlers em1). limiterReadings event now em2 (idOf h)
                                        = limiterReadings event now em1 (idOf h)"
    by (simp_all add: list_all_iff)
  have "map_sum id fst (matchLoop w event now (handlers em1) em2)
          = map_sum id fst (matchLoop w event now (handlers em1) em1)"
    using rd by (rule matchLoop_readings)
  then show "matchList w event now em2 = matchList w event now em1"
    by (simp only: matchList_matchLoop hs)
qed

theorem MatchEvent_priority_order_witness:
  "map (\<lambda>h. asString (map_of h ''handler_id'')) (handlers (matcher fourSystem))
     = [Some ''alpha'', Some ''charlie'', Some ''delta'', Some ''bravo'']
   \<and> primaryKey (database fourSystem)
   \<and> LoadHandlers plainWorld (database fourSystem) NewEventMatcher = Inr (matcher fourSystem)
   \<and> (\<exists>matches em'.
         MatchEvent plainWorld helloEvent 1700000005000000000 (matcher fourSystem)
           = Inr (matches, em')
       \<and> sorted_wrt (\<lambda>a b. priorityOf b \<le> priorityOf a) matches
       \<and> sorted_wrt precedes matches
       \<and> map priorityOf matches = [5, 5, 3, 1]
       \<and> map idOf matches = [''alpha'', ''charlie'', ''delta'', ''bravo'']
       \<and> rateLimits em' \<noteq> rateLimits (matcher fourSystem)
       \<and> handlers em' = handlers (matcher fourSystem)
       \<and> list_all (\<lambda>h. limiterReadings helloEvent 1700000005000000000 em' (idOf h)
                          = limiterReadings helloEvent 1700000005000000000
                              (matcher fourSystem) (idOf h))
            (handlers (matcher fourSystem))
       \<and> matchList plainWorld helloEvent 1700000005000000000 em' = Inr matches)"
proof -
  have idmap: "map (\<lambda>h. asString (map_of h ''handler_id'')) (handlers (matcher fourSystem))
                 = [Some ''alpha'', Some ''charlie'', Some ''delta'', Some ''bravo'']"
    by code_simp
  have "\<forall>x\<in>set (map (\<lambda>h. asString (map_of h ''handler_id''))
                     (handlers (matcher fourSystem))). x \<noteq> None"
    unfolding idmap by simp
  then have ids: "\<forall>h\<in>set (handlers (matcher fourSystem)).
                    asString (map_of h ''handler_id'') \<noteq> None"
    by simp
  have pk: "primaryKey (database fourSystem)"
    by code_simp
  have load: "LoadHandlers plainWorld (database fourSystem) NewEventMatcher
                = Inr (matcher fourSystem)"
    by code_simp
  have run: "map_sum id (\<lambda>(ms, em). (map priorityOf ms, map idOf ms))
               (MatchEvent plainWorld helloEvent 1700000005000000000 (matcher fourSystem))
             = Inr ([5, 5, 3, 1], [''alpha'', ''charlie'', ''delta'', ''bravo''])"
    by code_simp
  have after: "(case MatchEvent plainWorld helloEvent 1700000005000000000 (matcher fourSystem) of
                  Inl err \<Rightarrow> False
                | Inr (ms, em') \<Rightarrow>
                    rateLimits em' \<noteq> rateLimits (matcher fourSystem)
                    \<and> handlers em' = handlers (matcher fourSystem)
                    \<and> list_all (\<lambda>h. limiterReadings helloEvent 1700000005000000000 em' (idOf h)
                          = limiterReadings helloEvent 1700000005000000000
                              (matcher fourSystem) (idOf h))
                        (handlers (matcher fourSystem)))"
    by code_simp
  have order: "((\<forall>h\<in>set (handlers (matcher fourSystem)). asString (map_of h ''handler_id'') \<noteq> None) \<longrightarrow>
      (\<exists>matches em'. MatchEvent plainWorld helloEvent 1700000005000000000 (matcher fourSystem)
            = Inr (matches, em')
         \<and> sorted_wrt (\<lambda>a b. priorityOf b \<le> priorityOf a) matches
         \<and> handlers em' = handlers (matcher fourSystem)
         \<and> (\<forall>handlerID. limiterReadings helloEvent 1700000005000000000 em' handlerID
                           = limiterReadings helloEvent 1700000005000000000
                               (matcher fourSystem) handlerID)
         \<and> (\<exists>em''. MatchEvent plainWorld helloEvent 1700000005000000000 em'
                       = Inr (matches, em''))))
   \<and> (primaryKey (database fourSystem)
       \<and> LoadHandlers plainWorld (database fourSystem) NewEventMatcher = Inr (matcher fourSystem)
       \<and> handlers (matcher fourSystem) = handlers (matcher fourSystem) \<longrightarrow>
      (\<exists>matches em'. MatchEvent plainWorld helloEvent 1700000005000000000 (matcher fourSystem)
            = Inr (matches, em')
         \<and> sorted_wrt precedes matches))
   \<and> (handlers em2 = handlers (matcher fourSystem)
       \<and> list_all (\<lambda>h. limiterReadings helloEvent 1700000005000000000 em2 (idOf h)
                          = limiterReadings helloEvent 1700000005000000000
                              (matcher fourSystem) (idOf h)) (handlers (matcher fourSystem)) \<longrightarrow>
      matchList plainWorld helloEvent 1700000005000000000 em2
        = matchList plainWorld helloEvent 1700000005000000000 (matcher fourSystem))" for em2
    by (rule MatchEvent_priority_order)
  from order ids obtain matches em' where m: "MatchEvent plainWorld helloEvent
      1700000005000000000 (matcher fourSystem) = Inr (matches, em')"
    and d: "sorted_wrt (\<lambda>a b. priorityOf b \<le> priorityOf a) matches"
    by blast
  from order pk load m have s: "sorted_wrt precedes matches"
    by auto
  from run m have vals: "map priorityOf matches = [5, 5, 3, 1]"
    "map idOf matches = [''alpha'', ''charlie'', ''delta'', ''bravo'']"
    by simp_all
  from after m have fresh: "rateLimits em' \<noteq> rateLimits (matcher fourSystem)"
    and hs: "handlers em' = handlers (matcher fourSystem)"
    and rd: "list_all (\<lambda>h. limiterReadings helloEvent 1700000005000000000 em' (idOf h)
                          = limiterReadings helloEvent 1700000005000000000
                              (matcher fourSystem) (idOf h))
                        (handlers (matcher fourSystem))"
    by simp_all
  from order [of em'] hs rd
  have "matchList plainWorld helloEvent 1700000005000000000 em'
          = matchList plainWorld helloEvent 1700000005000000000 (matcher fourSystem)"
    by blast
  then have same: "matchList plainWorld helloEvent 1700000005000000000 em' = Inr matches"
    by (simp add: matchList_def m)
  show ?thesis
    by (rule conjI [OF idmap], rule conjI [OF pk], rule conjI [OF load],
        rule exI [of _ matches], rule exI [of _ em'], intro conjI)
       (rule m d s vals fresh hs rd same)+
qed

text \<open>
  C4 as stated fails: the same snapshot and the same event do not always give the same
  list. The engine holds
  \<^verbatim>\<open>alpha\<close>, limited to one execution per minute, and \<^verbatim>\<open>bravo\<close>. \<open>MatchEvent\<close> returns
  both; the event is processed, which records one execution of each; with the snapshot,
  the event and the clock as they were, \<open>MatchEvent\<close> now returns \<^verbatim>\<open>bravo\<close> alone.
\<close>

theorem same_snapshot_and_event_different_list:
  "matchedIds 1700000005000000000 helloEvent limitedSystem = Inr [''alpha'', ''bravo'']
   \<and> (case ExecuteHandlersForEvent plainWorld 1700000005000000000 helloEvent limitedSystem of
         Inl err \<Rightarrow> False
       | Inr processed \<Rightarrow>
           handlers (matcher processed) = handlers (matcher limitedSystem)
           \<and> matchedIds 1700000005000000000 helloEvent processed = Inr [''bravo''])"
  by code_simp

end
